theory Spec2Isabelle
  imports Main "HOL-Library.Word"
begin

section \<open>GPUMon: a shallow embedding of gpumon.go\<close>

text \<open>
  The program samples \<^verbatim>\<open>nvidia-smi -q -x\<close>, converts the textual memory and
  utilization fields to integers, formats nine InfluxDB points per GPU and posts them
  over HTTP, forever, with a five second pause between rounds.

  Go strings are byte sequences and are modelled as \<^typ>\<open>string\<close>; \<^verbatim>\<open>int64\<close>,
  \<^verbatim>\<open>uint64\<close> and \<^verbatim>\<open>int32\<close> are words of that width, read with \<^const>\<open>sint\<close>
  where Go prints or compares them as signed numbers.
\<close>

type_synonym int64 = "64 word"
type_synonym uint64 = "64 word"
type_synonym int32 = "32 word"

subsection \<open>The data model (the XML report)\<close>

record GPUUtilization =
  GPUUtil :: string
  MemoryUtil :: string
  EncoderUtil :: string
  DecoderUtil :: string

record MemoryUsage =
  Total :: string
  Used :: string
  Free :: string

record GPUInfo =
  ID :: string
  ProductName :: string
  ProductBrand :: string
  UUID :: string
  MinorNumber :: int32
  FBMemoryUsage :: MemoryUsage
  Bar1MemoryUsage :: MemoryUsage
  Utilization :: GPUUtilization

record NvidiaSmiLog =
  DriverVersion :: string
  AttachedGPUs :: string
  GPUInfoList :: "GPUInfo list"

subsection \<open>Library functions of package strings\<close>

text \<open>\<^verbatim>\<open>strings.HasSuffix\<close>: \<^verbatim>\<open>len(s) >= len(suffix) && s[len(s)-len(suffix):] == suffix\<close>.\<close>

definition HasSuffix :: "string \<Rightarrow> string \<Rightarrow> bool" where
  "HasSuffix s suf =
     (length s \<ge> length suf \<and> drop (length s - length suf) s = suf)"

text \<open>\<^verbatim>\<open>strings.HasPrefix\<close>, used to find the next occurrence in \<^verbatim>\<open>Replace\<close>.\<close>

definition HasPrefix :: "string \<Rightarrow> string \<Rightarrow> bool" where
  "HasPrefix s pre = (length s \<ge> length pre \<and> take (length pre) s = pre)"

text \<open>
  \<^verbatim>\<open>strings.Replace(s, old, new, -1)\<close>: every non-overlapping occurrence of
  \<^verbatim>\<open>old\<close>, found from left to right, is replaced. The program calls it with a
  non-empty \<^verbatim>\<open>old\<close> only; for an empty \<^verbatim>\<open>old\<close> Go inserts \<^verbatim>\<open>new\<close> before every
  character and at the end, which is what the model does byte by byte.
\<close>

function Replace :: "string \<Rightarrow> string \<Rightarrow> string \<Rightarrow> string" where
  "Replace s old new =
     (if s = [] then (if old = [] then new else [])
      else if old \<noteq> [] \<and> HasPrefix s old
        then new @ Replace (drop (length old) s) old new
      else (if old = [] then new else []) @ hd s # Replace (tl s) old new)"
  by pat_completeness auto
termination
  by (relation "measure (\<lambda>(s, old, new). length s)") auto

declare Replace.simps [simp del]

text \<open>\<^verbatim>\<open>strings.Contains\<close>: some occurrence of \<^verbatim>\<open>substr\<close> in \<^verbatim>\<open>s\<close>.\<close>

fun Contains :: "string \<Rightarrow> string \<Rightarrow> bool" where
  "Contains [] substr = (substr = [])"
| "Contains (c # s) substr = (HasPrefix (c # s) substr \<or> Contains s substr)"

subsection \<open>Library functions of package strconv\<close>

text \<open>
  \<^verbatim>\<open>strconv.ParseUint(s, 10, 64)\<close> and \<^verbatim>\<open>strconv.ParseInt(s, 10, 64)\<close>, following the
  library source for base 10 and bit size 64. Both return a value and an error; on a
  range error the value is the largest magnitude of the type, and the digits after the
  overflow are not inspected.
\<close>

datatype NumError = ErrSyntax | ErrRange

definition digitValue :: "char \<Rightarrow> nat option" where
  "digitValue c =
     (let b = (of_char c :: nat) in
      if 48 \<le> b \<and> b \<le> 57 then Some (b - 48)
      else if 97 \<le> b \<and> b \<le> 122 then Some (b - 97 + 10)
      else if 65 \<le> b \<and> b \<le> 90 then Some (b - 65 + 10)
      else None)"

definition cutoff10 :: uint64 where
  "cutoff10 = 1844674407370955162"

definition maxVal64 :: uint64 where
  "maxVal64 = 18446744073709551615"

fun ParseUint_loop :: "uint64 \<Rightarrow> string \<Rightarrow> uint64 \<times> NumError option" where
  "ParseUint_loop n [] = (n, None)"
| "ParseUint_loop n (c # cs) =
     (case digitValue c of
        None \<Rightarrow> (0, Some ErrSyntax)
      | Some v \<Rightarrow>
          if v \<ge> 10 then (0, Some ErrSyntax)
          else if n \<ge> cutoff10 then (maxVal64, Some ErrRange)
          else
            (let n10 = n * 10; n1 = n10 + of_nat v in
             if n1 < n10 \<or> n1 > maxVal64 then (maxVal64, Some ErrRange)
             else ParseUint_loop n1 cs))"

declare ParseUint_loop.simps [simp del]

definition ParseUint :: "string \<Rightarrow> uint64 \<times> NumError option" where
  "ParseUint s = (if s = [] then (0, Some ErrSyntax) else ParseUint_loop 0 s)"

definition cutoffInt64 :: uint64 where
  "cutoffInt64 = 9223372036854775808"

definition ParseInt :: "string \<Rightarrow> int64 \<times> NumError option" where
  "ParseInt s0 =
     (if s0 = [] then (0, Some ErrSyntax)
      else
        (let neg = (hd s0 = CHR ''-'');
             s = (if hd s0 = CHR ''+'' \<or> hd s0 = CHR ''-'' then tl s0 else s0);
             (un, err) = ParseUint s
         in if err = Some ErrSyntax then (0, err)
            else if \<not> neg \<and> un \<ge> cutoffInt64 then (cutoffInt64 - 1, Some ErrRange)
            else if neg \<and> un > cutoffInt64 then (- cutoffInt64, Some ErrRange)
            else (if neg then - un else un, None)))"

subsection \<open>The two conversions\<close>

definition memUsage2Int :: "string \<Rightarrow> int64" where
  "memUsage2Int usage =
     (if HasSuffix usage '' MiB'' then
        (let mega = Replace usage '' MiB'' '''';
             (megaInt, _) = ParseInt mega
         in megaInt * 1024 * 1024)
      else 0)"

definition utilization2Float :: "string \<Rightarrow> int64" where
  "utilization2Float utilization =
     (if HasSuffix utilization '' %'' then
        (let ut = Replace utilization '' %'' '''';
             (utInt, _) = ParseInt ut
         in utInt)
      else 0)"

subsection \<open>Formatting integers: the verb \<^verbatim>\<open>%d\<close> of package fmt\<close>

text \<open>
  Decimal digits of a non-negative number, most significant first; a negative number is
  printed as a minus sign and the digits of its magnitude.
\<close>

definition digitChar :: "int \<Rightarrow> char" where
  "digitChar d = char_of (48 + d)"

function showDigits :: "int \<Rightarrow> string" where
  "showDigits n =
     (if n < 10 then [digitChar n] else showDigits (n div 10) @ [digitChar (n mod 10)])"
  by pat_completeness auto
termination
  by (relation "measure nat") auto

declare showDigits.simps [simp del]

definition showInt :: "int \<Rightarrow> string" where
  "showInt i = (if i < 0 then CHR ''-'' # showDigits (- i) else showDigits i)"

subsection \<open>Library functions of package net/url\<close>

text \<open>
  \<^verbatim>\<open>url.QueryEscape\<close> is \<^verbatim>\<open>escape(s, encodeQueryComponent)\<close>: letters, digits and
  \<^verbatim>\<open>- _ . ~\<close> are kept, a space becomes \<^verbatim>\<open>+\<close>, every other byte becomes \<^verbatim>\<open>%XX\<close>
  with upper-case hexadecimal digits. \<^verbatim>\<open>url.QueryUnescape\<close> is its decoder; it fails on
  a \<^verbatim>\<open>%\<close> that is not followed by two hexadecimal digits.
\<close>

definition shouldEscape :: "char \<Rightarrow> bool" where
  "shouldEscape c =
     (let b = (of_char c :: nat) in
      if (97 \<le> b \<and> b \<le> 122) \<or> (65 \<le> b \<and> b \<le> 90) \<or> (48 \<le> b \<and> b \<le> 57) then False
      else if c = CHR ''-'' \<or> c = CHR ''_'' \<or> c = CHR ''.'' \<or> c = CHR ''~'' then False
      else True)"

definition upperhex :: "nat \<Rightarrow> char" where
  "upperhex n = (if n < 10 then char_of (48 + n) else char_of (55 + n))"

fun QueryEscape :: "string \<Rightarrow> string" where
  "QueryEscape [] = []"
| "QueryEscape (c # s) =
     (if c = CHR '' '' then CHR ''+'' # QueryEscape s
      else if shouldEscape c
        then CHR ''%'' # upperhex (of_char c div 16) # upperhex (of_char c mod 16) # QueryEscape s
      else c # QueryEscape s)"

definition ishex :: "char \<Rightarrow> bool" where
  "ishex c =
     (let b = (of_char c :: nat) in
      (48 \<le> b \<and> b \<le> 57) \<or> (97 \<le> b \<and> b \<le> 102) \<or> (65 \<le> b \<and> b \<le> 70))"

definition unhex :: "char \<Rightarrow> nat" where
  "unhex c =
     (let b = (of_char c :: nat) in
      if 48 \<le> b \<and> b \<le> 57 then b - 48
      else if 97 \<le> b \<and> b \<le> 102 then b - 97 + 10
      else if 65 \<le> b \<and> b \<le> 70 then b - 65 + 10
      else 0)"

fun QueryUnescape :: "string \<Rightarrow> string option" where
  "QueryUnescape [] = Some []"
| "QueryUnescape (c # s) =
     (if c = CHR ''%'' then
        (case s of
           h1 # h2 # rest \<Rightarrow>
             if ishex h1 \<and> ishex h2
             then map_option ((#) (char_of (unhex h1 * 16 + unhex h2))) (QueryUnescape rest)
             else None
         | _ \<Rightarrow> None)
      else if c = CHR ''+'' then map_option ((#) CHR '' '') (QueryUnescape s)
      else map_option ((#) c) (QueryUnescape s))"

subsection \<open>The outside world: log, HTTP and the sampled command\<close>

text \<open>
  Everything the program does to the outside is appended to a trace, in order. The
  answers of the outside are inputs: the \<open>k\<close>-th HTTP request of the run gets \<open>net k\<close>.
  \<^verbatim>\<open>http.Get\<close> and \<^verbatim>\<open>http.Post\<close> return a response and an error; with an error the
  response is \<^verbatim>\<open>nil\<close>, except after a failed redirect check. Reading a body gives the
  bytes read and possibly an error.
\<close>

datatype event =
    Exec
  | Errorf string
  | Infof string
  | HttpGet string
  | HttpPost string string string
  | Sleep

record Response =
  StatusCode :: int
  BodyData :: string
  BodyErr :: "string option"

datatype httpResult =
    HttpOk Response
  | HttpFail string "Response option"

datatype panic = NilPointerDereference

fun isHttp :: "event \<Rightarrow> bool" where
  "isHttp (HttpGet url) = True"
| "isHttp (HttpPost url ctype body) = True"
| "isHttp e = False"

definition httpCalls :: "event list \<Rightarrow> nat" where
  "httpCalls tr = length (filter isHttp tr)"

definition getGPUInfo ::
  "string + string \<Rightarrow> (string \<Rightarrow> string + NvidiaSmiLog) \<Rightarrow> NvidiaSmiLog option \<times> string option"
where
  "getGPUInfo out unmarshal =
     (case out of
        Inl err \<Rightarrow> (None, Some err)
      | Inr bytes \<Rightarrow>
          (case unmarshal bytes of
             Inl err \<Rightarrow> (None, Some err)
           | Inr nvidiasmilog \<Rightarrow> (Some nvidiasmilog, None)))"

definition getURL ::
  "(nat \<Rightarrow> httpResult) \<Rightarrow> string \<Rightarrow> event list \<Rightarrow> (int \<times> string) \<times> event list"
where
  "getURL net url tr =
     (let tr1 = tr @ [HttpGet url] in
      case net (httpCalls tr) of
        HttpFail err resp \<Rightarrow> ((- 1, []), tr1 @ [Errorf (''url get error: '' @ err)])
      | HttpOk resp \<Rightarrow>
          (case BodyErr resp of
             Some err \<Rightarrow> ((- 1, []), tr1 @ [Errorf (''parse url response error: '' @ err)])
           | None \<Rightarrow>
               ((StatusCode resp, BodyData resp),
                tr1 @ [Infof (''got response '' @ BodyData resp)])))"

definition readAndLog :: "Response \<Rightarrow> event list \<Rightarrow> event list" where
  "readAndLog resp tr =
     (case BodyErr resp of
        Some err \<Rightarrow> tr @ [Errorf (''error read response '' @ err)]
      | None \<Rightarrow> tr)
     @ [Infof (''response status['' @ showInt (StatusCode resp) @ ''] '' @ BodyData resp)]"

definition postURL ::
  "(nat \<Rightarrow> httpResult) \<Rightarrow> string \<Rightarrow> string \<Rightarrow> event list \<Rightarrow> (panic + unit) \<times> event list"
where
  "postURL net url plainpost tr =
     (let tr1 = tr @ [Infof (''posting: '' @ plainpost), HttpPost url ''plain/text'' plainpost] in
      case net (httpCalls tr) of
        HttpFail err respo \<Rightarrow>
          (let tr2 = tr1 @ [Errorf (''post error: '' @ err)] in
           case respo of
             None \<Rightarrow> (Inl NilPointerDereference, tr2)
           | Some resp \<Rightarrow> (Inr (), readAndLog resp tr2))
      | HttpOk resp \<Rightarrow> (Inr (), readAndLog resp tr1))"

subsection \<open>Encoding and publishing\<close>

text \<open>\<^verbatim>\<open>fmt.Sprintf("%s,%s value=%d %d", mesurement, tags, value, timestamp)\<close>.\<close>

definition formatPoint :: "string \<Rightarrow> string \<Rightarrow> int64 \<Rightarrow> int64 \<Rightarrow> string" where
  "formatPoint mesurement tags val timestamp =
     mesurement @ '','' @ tags @ '' value='' @ showInt (sint val)
     @ '' '' @ showInt (sint timestamp)"

definition appendPoint :: "string \<Rightarrow> string \<Rightarrow> string \<Rightarrow> int64 \<Rightarrow> int64 \<Rightarrow> string" where
  "appendPoint output mesurement tags val timestamp =
     (if length output > 0 then output @ [CHR 0x0A] else output)
     @ formatPoint mesurement tags val timestamp"

definition gpuTags :: "string \<Rightarrow> GPUInfo \<Rightarrow> string" where
  "gpuTags hostname gpustat =
     ''hostname='' @ hostname @ '',gpuid='' @ ID gpustat
     @ '',product='' @ QueryEscape (ProductName gpustat)
     @ '',minor='' @ showInt (sint (MinorNumber gpustat))"

text \<open>
  The body of the loop over the GPUs, up to the call of \<^verbatim>\<open>postURL\<close>: the buffer is
  reset, then \<^verbatim>\<open>appendPoint\<close> is called nine times, in the order of \<open>gpuMetrics\<close>,
  each time with the same tags and the same timestamp.
\<close>

definition gpuMetrics :: "GPUInfo \<Rightarrow> (string \<times> int64) list" where
  "gpuMetrics gpustat =
     [(''fbmemory/total'', memUsage2Int (Total (FBMemoryUsage gpustat))),
      (''fbmemory/used'', memUsage2Int (Used (FBMemoryUsage gpustat))),
      (''fbmemory/free'', memUsage2Int (Free (FBMemoryUsage gpustat))),
      (''bar1memory/total'', memUsage2Int (Total (Bar1MemoryUsage gpustat))),
      (''bar1memory/used'', memUsage2Int (Used (Bar1MemoryUsage gpustat))),
      (''bar1memory/free'', memUsage2Int (Free (Bar1MemoryUsage gpustat))),
      (''gpu'', utilization2Float (GPUUtil (Utilization gpustat))),
      (''gpu/encoder'', utilization2Float (EncoderUtil (Utilization gpustat))),
      (''gpu/decoder'', utilization2Float (DecoderUtil (Utilization gpustat)))]"

definition gpuPayload :: "string \<Rightarrow> int64 \<Rightarrow> GPUInfo \<Rightarrow> string" where
  "gpuPayload hostname timestamp gpustat =
     foldl (\<lambda>postbuffer (mesurement, val).
              appendPoint postbuffer mesurement (gpuTags hostname gpustat) val timestamp)
       [] (gpuMetrics gpustat)"

fun postLoop ::
  "(nat \<Rightarrow> httpResult) \<Rightarrow> string \<Rightarrow> string \<Rightarrow> int64 \<Rightarrow> GPUInfo list \<Rightarrow> event list
   \<Rightarrow> (panic + unit) \<times> event list"
where
  "postLoop net writeurl hostname timestamp [] tr = (Inr (), tr)"
| "postLoop net writeurl hostname timestamp (gpustat # rest) tr =
     (case postURL net writeurl (gpuPayload hostname timestamp gpustat) tr of
        (Inl p, tr') \<Rightarrow> (Inl p, tr')
      | (Inr u, tr') \<Rightarrow> postLoop net writeurl hostname timestamp rest tr')"

text \<open>
  \<^verbatim>\<open>xmlinfo\<close> is a pointer: \<open>None\<close> is \<^verbatim>\<open>nil\<close>, and reading \<^verbatim>\<open>xmlinfo.GPUInfoList\<close>
  through it panics. The range expression is evaluated after the database request.
\<close>

definition postToInfluxdb ::
  "(nat \<Rightarrow> httpResult) \<Rightarrow> NvidiaSmiLog option \<Rightarrow> string \<Rightarrow> string \<Rightarrow> int64 \<Rightarrow> event list
   \<Rightarrow> (panic + unit) \<times> event list"
where
  "postToInfluxdb net xmlinfo baseurl hostname timestamp tr =
     (let url = baseurl @ ''query?q=CREATE%20DATABASE%20GPU'';
          ((code, body), tr1) = getURL net url tr;
          tr2 = (if code \<noteq> 200
                 then tr1 @ [Errorf (''create database faild, code '' @ showInt code @ '', '' @ body)]
                 else tr1);
          writeurl = baseurl @ ''write?db=GPU''
      in case xmlinfo of
           None \<Rightarrow> (Inl NilPointerDereference, tr2)
         | Some info \<Rightarrow> postLoop net writeurl hostname timestamp (GPUInfoList info) tr2)"

subsection \<open>The main loop\<close>

record env =
  hostname :: string
  influxdbAddr :: string
  now :: "nat \<Rightarrow> int64"
  nvidia_smi :: "nat \<Rightarrow> string + string"
  unmarshal :: "string \<Rightarrow> string + NvidiaSmiLog"
  net :: "nat \<Rightarrow> httpResult"

text \<open>Round \<open>k\<close> of the \<^verbatim>\<open>for\<close> loop of \<^verbatim>\<open>main\<close>, the sleep included.\<close>

definition mainRound :: "env \<Rightarrow> nat \<Rightarrow> event list \<Rightarrow> (panic + unit) \<times> event list" where
  "mainRound e k tr =
     (let timestamp = now e k;
          (infos, err) = getGPUInfo (nvidia_smi e k) (unmarshal e);
          tr1 = tr @ [Exec];
          tr2 = (case err of
                   Some msg \<Rightarrow> tr1 @ [Errorf (''get GPU info error: '' @ msg)]
                 | None \<Rightarrow> tr1)
      in case postToInfluxdb (net e) infos (influxdbAddr e) (hostname e) timestamp tr2 of
           (Inl p, tr3) \<Rightarrow> (Inl p, tr3)
         | (Inr u, tr3) \<Rightarrow> (Inr (), tr3 @ [Sleep]))"

text \<open>
  The loop never ends by itself; \<open>mainLoop e n k\<close> runs \<open>n\<close> rounds from round \<open>k\<close> on
  and stops early at a panic, which ends the process.
\<close>

fun mainLoop :: "env \<Rightarrow> nat \<Rightarrow> nat \<Rightarrow> event list \<Rightarrow> (panic + unit) \<times> event list" where
  "mainLoop e 0 k tr = (Inr (), tr)"
| "mainLoop e (Suc n) k tr =
     (case mainRound e k tr of
        (Inl p, tr') \<Rightarrow> (Inl p, tr')
      | (Inr u, tr') \<Rightarrow> mainLoop e n (Suc k) tr')"

definition main :: "env \<Rightarrow> nat \<Rightarrow> (panic + unit) \<times> event list" where
  "main e n = mainLoop e n 0 []"

subsection \<open>Reading a trace\<close>

text \<open>The write requests of a trace, in order: URL, content type and body.\<close>

fun posts :: "event list \<Rightarrow> (string \<times> string \<times> string) list" where
  "posts [] = []"
| "posts (HttpPost url ctype body # tr) = (url, ctype, body) # posts tr"
| "posts (e # tr) = posts tr"

text \<open>The number of times the diagnostic command was run.\<close>

definition samplings :: "event list \<Rightarrow> nat" where
  "samplings tr = length (filter (\<lambda>e. e = Exec) tr)"

text \<open>
  A request is answered when the HTTP client hands back a response, whatever its status;
  it is not when the client returns an error and a \<^verbatim>\<open>nil\<close> response, as it does when
  the connection cannot be made.
\<close>

fun answered :: "httpResult \<Rightarrow> bool" where
  "answered (HttpOk resp) = True"
| "answered (HttpFail err (Some resp)) = True"
| "answered (HttpFail err None) = False"

text \<open>Lines joined by a line feed, as \<^verbatim>\<open>strings.Join(lines, "\n")\<close> does.\<close>

fun joinLines :: "string list \<Rightarrow> string" where
  "joinLines [] = []"
| "joinLines [l] = l"
| "joinLines (l # ls) = l @ CHR 0x0A # joinLines ls"

subsection \<open>Sample inputs\<close>

definition teslaK80 :: GPUInfo where
  "teslaK80 =
     \<lparr>ID = ''0'', ProductName = ''Tesla K80'', ProductBrand = ''Tesla'',
      UUID = ''GPU-6d1a4f22'', MinorNumber = 0,
      FBMemoryUsage = \<lparr>Total = ''11519 MiB'', Used = ''0 MiB'', Free = ''11519 MiB''\<rparr>,
      Bar1MemoryUsage = \<lparr>Total = ''11519 MiB'', Used = ''0 MiB'', Free = ''11519 MiB''\<rparr>,
      Utilization = \<lparr>GPUUtil = ''0 %'', MemoryUtil = ''0 %'', EncoderUtil = ''0 %'',
                      DecoderUtil = ''0 %''\<rparr>\<rparr>"

definition oddGPU :: GPUInfo where
  "oddGPU =
     teslaK80
       \<lparr>ID := ''1'', MinorNumber := 1,
        FBMemoryUsage := \<lparr>Total = ''-5 MiB'', Used = ''0 MiB'', Free = ''0 MiB''\<rparr>,
        Utilization := \<lparr>GPUUtil = ''150 %'', MemoryUtil = ''7 %'', EncoderUtil = ''0 %'',
                         DecoderUtil = ''0 %''\<rparr>\<rparr>"

definition report :: "GPUInfo list \<Rightarrow> NvidiaSmiLog" where
  "report gpus =
     \<lparr>DriverVersion = ''375.26'', AttachedGPUs = showInt (int (length gpus)), GPUInfoList = gpus\<rparr>"

definition ok200 :: httpResult where
  "ok200 = HttpOk \<lparr>StatusCode = 200, BodyData = ''{}'', BodyErr = None\<rparr>"

definition refused :: httpResult where
  "refused = HttpFail ''dial tcp: connection refused'' None"

text \<open>The command fails in the first round and works afterwards; the sink is healthy.\<close>

definition envSmiFails :: env where
  "envSmiFails =
     \<lparr>hostname = ''node1'', influxdbAddr = ''http://influxdb:8086/'',
      now = (\<lambda>k. 1500000000000000000 + 5000000000 * of_nat k),
      nvidia_smi = (\<lambda>k. if k = 0 then Inl ''exit status 9'' else Inr ''<nvidia_smi_log/>''),
      unmarshal = (\<lambda>bytes. Inr (report [teslaK80])),
      net = (\<lambda>k. ok200)\<rparr>"

text \<open>The command works; the sink answers the database request and refuses the write.\<close>

definition envWriteRefused :: "GPUInfo list \<Rightarrow> env" where
  "envWriteRefused gpus =
     \<lparr>hostname = ''node1'', influxdbAddr = ''http://influxdb:8086/'',
      now = (\<lambda>k. 1500000000000000000 + 5000000000 * of_nat k),
      nvidia_smi = (\<lambda>k. Inr ''<nvidia_smi_log/>''),
      unmarshal = (\<lambda>bytes. Inr (report gpus)),
      net = (\<lambda>k. if k = 0 then ok200 else refused)\<rparr>"

subsection \<open>Vocabulary of the properties\<close>

text \<open>The lines of a text, as \<^verbatim>\<open>strings.Split(s, "\n")\<close> gives them.\<close>

fun splitLines :: "string \<Rightarrow> string list" where
  "splitLines [] = [[]]"
| "splitLines (c # s) =
     (if c = CHR 0x0A then [] # splitLines s
      else (case splitLines s of [] \<Rightarrow> [[c]] | l # ls \<Rightarrow> (c # l) # ls))"

text \<open>The points handed to the HTTP client in a trace: the lines of its write bodies.\<close>

definition pointsGenerated :: "event list \<Rightarrow> string list" where
  "pointsGenerated tr = concat (map (\<lambda>(url, ctype, body). splitLines body) (posts tr))"

text \<open>
  The database request has failed when it could not be made, when its body could not
  be read, or when its status is not 200: the cases in which \<^verbatim>\<open>getURL\<close> does not
  return the code 200.
\<close>

fun creationFailed :: "httpResult \<Rightarrow> bool" where
  "creationFailed (HttpFail err resp) = True"
| "creationFailed (HttpOk resp) = (BodyErr resp \<noteq> None \<or> StatusCode resp \<noteq> 200)"

text \<open>Two reports that differ at most in the \<^verbatim>\<open>memory_util\<close> fields of their GPUs.\<close>

definition eraseMemoryUtil :: "GPUInfo \<Rightarrow> GPUInfo" where
  "eraseMemoryUtil g = g\<lparr>Utilization := (Utilization g)\<lparr>MemoryUtil := []\<rparr>\<rparr>"

definition sameExceptMemoryUtil :: "NvidiaSmiLog \<Rightarrow> NvidiaSmiLog \<Rightarrow> bool" where
  "sameExceptMemoryUtil a b =
     (DriverVersion a = DriverVersion b \<and> AttachedGPUs a = AttachedGPUs b
      \<and> map eraseMemoryUtil (GPUInfoList a) = map eraseMemoryUtil (GPUInfoList b))"

text \<open>A sink that refuses the database request and answers every later request.\<close>

definition createRefused :: "nat \<Rightarrow> httpResult" where
  "createRefused k = (if k = 0 then refused else ok200)"

text \<open>A sink that answers every request with status 200.\<close>

definition healthy :: "nat \<Rightarrow> httpResult" where
  "healthy k = ok200"

definition busyGPU :: GPUInfo where
  "busyGPU =
     teslaK80\<lparr>Utilization := \<lparr>GPUUtil = ''0 %'', MemoryUtil = ''99 %'', EncoderUtil = ''0 %'',
                                 DecoderUtil = ''0 %''\<rparr>\<rparr>"

text \<open>
  From the spec's words, "percent-encoded" and "URL-decoding": percent-encoding proper
  replaces every byte outside the unreserved set by \<^verbatim>\<open>%XX\<close> and nothing else, and
  percent-decoding turns \<^verbatim>\<open>%XX\<close> back into the byte and leaves every other byte.
\<close>

fun spec_percentEncode :: "string \<Rightarrow> string" where
  "spec_percentEncode [] = []"
| "spec_percentEncode (c # s) =
     (if shouldEscape c
      then CHR ''%'' # upperhex (of_char c div 16) # upperhex (of_char c mod 16) # spec_percentEncode s
      else c # spec_percentEncode s)"

fun spec_percentDecode :: "string \<Rightarrow> string option" where
  "spec_percentDecode [] = Some []"
| "spec_percentDecode (c # s) =
     (if c = CHR ''%'' then
        (case s of
           h1 # h2 # rest \<Rightarrow>
             if ishex h1 \<and> ishex h2
             then map_option ((#) (char_of (unhex h1 * 16 + unhex h2))) (spec_percentDecode rest)
             else None
         | _ \<Rightarrow> None)
      else map_option ((#) c) (spec_percentDecode s))"

text \<open>
  The form \<^verbatim>\<open><integer>\<close> of the spec: decimal digits with an optional sign in front,
  and the integer such a text denotes. \<open>decimalFrom a ds\<close> continues the number \<open>a\<close>
  with the digits \<open>ds\<close>.
\<close>

definition isDigit :: "char \<Rightarrow> bool" where
  "isDigit c = (48 \<le> (of_char c :: nat) \<and> (of_char c :: nat) \<le> 57)"

primrec decimalFrom :: "int \<Rightarrow> string \<Rightarrow> int" where
  "decimalFrom a [] = a"
| "decimalFrom a (c # cs) = decimalFrom (10 * a + (of_char c - 48)) cs"

definition decimalValue :: "string \<Rightarrow> int" where
  "decimalValue ds = decimalFrom 0 ds"

definition isDecimal :: "string \<Rightarrow> bool" where
  "isDecimal ds = (ds \<noteq> [] \<and> list_all isDigit ds)"

definition unsignedPart :: "string \<Rightarrow> string" where
  "unsignedPart p =
     (case p of [] \<Rightarrow> [] | c # s \<Rightarrow> if c = CHR ''+'' \<or> c = CHR ''-'' then s else p)"

definition isInteger :: "string \<Rightarrow> bool" where
  "isInteger p = isDecimal (unsignedPart p)"

definition integerValue :: "string \<Rightarrow> int" where
  "integerValue p =
     (case p of [] \<Rightarrow> 0
      | c # s \<Rightarrow> if c = CHR ''-'' then - decimalValue s else decimalValue (unsignedPart p))"


section \<open>Auxiliary facts\<close>

subsection \<open>Traces of the HTTP calls\<close>

lemma posts_append: "posts (a @ b) = posts a @ posts b"
  by (induction a rule: posts.induct) simp_all

lemma httpCalls_append: "httpCalls (a @ b) = httpCalls a + httpCalls b"
  by (simp add: httpCalls_def)

lemma posts_readAndLog: "posts (readAndLog resp tr) = posts tr"
  by (simp add: readAndLog_def posts_append split: option.splits)

lemma httpCalls_readAndLog: "httpCalls (readAndLog resp tr) = httpCalls tr"
  by (simp add: readAndLog_def httpCalls_def split: option.splits)

lemma posts_postURL:
  "posts (snd (postURL nt url body tr)) = posts tr @ [(url, ''plain/text'', body)]"
  by (simp add: postURL_def Let_def posts_append posts_readAndLog split: httpResult.splits option.splits)

lemma httpCalls_postURL:
  "httpCalls (snd (postURL nt url body tr)) = Suc (httpCalls tr)"
  by (simp add: postURL_def Let_def httpCalls_append httpCalls_readAndLog split: httpResult.splits option.splits)
   (simp add: httpCalls_def)

lemma fst_postURL:
  "fst (postURL nt url body tr) =
     (if answered (nt (httpCalls tr)) then Inr () else Inl NilPointerDereference)"
  by (simp add: postURL_def Let_def split: httpResult.splits option.splits)

lemma gpuPayload_eraseMemoryUtil:
  "gpuPayload host ts (eraseMemoryUtil g) = gpuPayload host ts g"
  by (simp add: gpuPayload_def gpuMetrics_def gpuTags_def eraseMemoryUtil_def)

lemma postLoop_cong_payload:
  "map (gpuPayload host ts) xs = map (gpuPayload host ts) ys \<Longrightarrow>
   postLoop nt url host ts xs tr = postLoop nt url host ts ys tr"
proof (induction xs arbitrary: ys tr)
  case Nil
  then show ?case by simp
next
  case (Cons x xs)
  then obtain y ys' where ys: "ys = y # ys'" by (cases ys) auto
  with Cons.prems have hd: "gpuPayload host ts x = gpuPayload host ts y"
    and tl: "map (gpuPayload host ts) xs = map (gpuPayload host ts) ys'" by auto
  show ?case
    by (simp add: ys hd Cons.IH [OF tl] split: prod.splits sum.splits)
qed

lemma payloads_sameExcept:
  assumes "sameExceptMemoryUtil a b"
  shows "map (gpuPayload host ts) (GPUInfoList a) = map (gpuPayload host ts) (GPUInfoList b)"
proof -
  have "map (gpuPayload host ts) (map eraseMemoryUtil (GPUInfoList a))
      = map (gpuPayload host ts) (map eraseMemoryUtil (GPUInfoList b))"
    using assms by (simp only: sameExceptMemoryUtil_def)
  then show ?thesis
    by (simp add: o_def gpuPayload_eraseMemoryUtil)
qed

subsection \<open>The write loop from any trace is the write loop from the empty trace\<close>

lemma postURL_shift:
  "postURL nt url body tr =
     (fst (postURL (\<lambda>k. nt (httpCalls tr + k)) url body []),
      tr @ snd (postURL (\<lambda>k. nt (httpCalls tr + k)) url body []))"
  by (simp add: postURL_def Let_def httpCalls_def readAndLog_def
      split: httpResult.splits option.splits)

lemma postLoop_shift:
  "postLoop nt url host ts gpus tr =
     (fst (postLoop (\<lambda>k. nt (httpCalls tr + k)) url host ts gpus []),
      tr @ snd (postLoop (\<lambda>k. nt (httpCalls tr + k)) url host ts gpus []))"
proof (induction gpus arbitrary: nt tr)
  case Nil
  then show ?case by simp
next
  case (Cons g gs)
  let ?nt0 = "\<lambda>k. nt (httpCalls tr + k)"
  let ?p = "gpuPayload host ts g"
  obtain r s1 where one: "postURL ?nt0 url ?p [] = (r, s1)" by (cases "postURL ?nt0 url ?p []")
  have here: "postURL nt url ?p tr = (r, tr @ s1)"
    using postURL_shift [of nt url ?p tr] one by simp
  show ?case
  proof (cases r)
    case (Inl p)
    then show ?thesis using one here by simp
  next
    case (Inr u)
    have a: "postLoop nt url host ts gs (tr @ s1) =
        (fst (postLoop (\<lambda>k. nt (httpCalls (tr @ s1) + k)) url host ts gs []),
         (tr @ s1) @ snd (postLoop (\<lambda>k. nt (httpCalls (tr @ s1) + k)) url host ts gs []))"
      by (rule Cons.IH)
    have b: "postLoop ?nt0 url host ts gs s1 =
        (fst (postLoop (\<lambda>k. ?nt0 (httpCalls s1 + k)) url host ts gs []),
         s1 @ snd (postLoop (\<lambda>k. ?nt0 (httpCalls s1 + k)) url host ts gs []))"
      by (rule Cons.IH)
    have c: "(\<lambda>k. nt (httpCalls (tr @ s1) + k)) = (\<lambda>k. ?nt0 (httpCalls s1 + k))"
      by (simp add: httpCalls_append add.assoc)
    show ?thesis
      using one here Inr by (simp add: a b c)
  qed
qed

subsection \<open>What the write loop sends\<close>

lemma postLoop_answered:
  "(\<And>i. i < length gpus \<Longrightarrow> answered (nt (httpCalls tr + i))) \<Longrightarrow>
   fst (postLoop nt url host ts gpus tr) = Inr ()
   \<and> posts (snd (postLoop nt url host ts gpus tr))
       = posts tr @ map (\<lambda>g. (url, ''plain/text'', gpuPayload host ts g)) gpus"
proof (induction gpus arbitrary: tr)
  case Nil
  then show ?case by simp
next
  case (Cons g gs)
  let ?p = "gpuPayload host ts g"
  obtain r tr1 where one: "postURL nt url ?p tr = (r, tr1)" by (cases "postURL nt url ?p tr")
  have "answered (nt (httpCalls tr))" using Cons.prems [of 0] by simp
  then have r: "r = Inr ()" using fst_postURL [of nt url ?p tr] one by simp
  have calls: "httpCalls tr1 = Suc (httpCalls tr)"
    using httpCalls_postURL [of nt url ?p tr] one by simp
  have sent: "posts tr1 = posts tr @ [(url, ''plain/text'', ?p)]"
    using posts_postURL [of nt url ?p tr] one by simp
  have "\<And>i. i < length gs \<Longrightarrow> answered (nt (httpCalls tr1 + i))"
    using Cons.prems [of "Suc _"] calls by simp
  from Cons.IH [OF this] show ?case
    using one r sent by simp
qed

lemma postLoop_all_but_last_answered:
  "(\<And>i. Suc i < length gpus \<Longrightarrow> answered (nt (httpCalls tr + i))) \<Longrightarrow>
   posts (snd (postLoop nt url host ts gpus tr))
     = posts tr @ map (\<lambda>g. (url, ''plain/text'', gpuPayload host ts g)) gpus"
proof (induction gpus arbitrary: tr)
  case Nil
  then show ?case by simp
next
  case (Cons g gs)
  let ?p = "gpuPayload host ts g"
  obtain r tr1 where one: "postURL nt url ?p tr = (r, tr1)" by (cases "postURL nt url ?p tr")
  have calls: "httpCalls tr1 = Suc (httpCalls tr)"
    using httpCalls_postURL [of nt url ?p tr] one by simp
  have sent: "posts tr1 = posts tr @ [(url, ''plain/text'', ?p)]"
    using posts_postURL [of nt url ?p tr] one by simp
  show ?case
  proof (cases gs)
    case Nil
    then show ?thesis using one sent by (simp split: sum.splits)
  next
    case (Cons g' gs')
    then have "answered (nt (httpCalls tr))" using Cons.prems [of 0] by simp
    then have r: "r = Inr ()" using fst_postURL [of nt url ?p tr] one by simp
    have "\<And>i. Suc i < length gs \<Longrightarrow> answered (nt (httpCalls tr1 + i))"
      using Cons.prems [of "Suc _"] calls by simp
    from Cons.IH [OF this] show ?thesis
      using one r sent by simp
  qed
qed

lemma postLoop_first_write:
  "\<exists>more. posts (snd (postLoop nt url host ts (g # gs) []))
     = (url, ''plain/text'', gpuPayload host ts g) # more"
proof -
  let ?p = "gpuPayload host ts g"
  obtain r tr1 where one: "postURL nt url ?p [] = (r, tr1)" by (cases "postURL nt url ?p []")
  have sent: "posts tr1 = [(url, ''plain/text'', ?p)]"
    using posts_postURL [of nt url ?p "[]"] one by simp
  show ?thesis
  proof (cases r)
    case (Inl p)
    then show ?thesis using one sent by simp
  next
    case (Inr u)
    have "posts (snd (postLoop nt url host ts gs tr1))
        = posts tr1 @ posts (snd (postLoop (\<lambda>k. nt (httpCalls tr1 + k)) url host ts gs []))"
      by (subst postLoop_shift) (simp add: posts_append)
    then show ?thesis using one sent Inr by simp
  qed
qed

subsection \<open>The payload of a GPU, line by line\<close>

lemma formatPoint_nonempty: "formatPoint m t v ts \<noteq> []"
  by (simp add: formatPoint_def)

lemma foldl_appendPoint:
  "foldl (\<lambda>postbuffer (m, v). appendPoint postbuffer m t v ts) b0 ps =
     (if ps = [] then b0
      else if b0 = [] then joinLines (map (\<lambda>(m, v). formatPoint m t v ts) ps)
      else b0 @ CHR 0x0A # joinLines (map (\<lambda>(m, v). formatPoint m t v ts) ps))"
proof (induction ps arbitrary: b0)
  case Nil
  then show ?case by simp
next
  case (Cons p ps)
  obtain m v where p: "p = (m, v)" by (cases p)
  have ne: "appendPoint b0 m t v ts \<noteq> []"
    by (simp add: appendPoint_def formatPoint_nonempty)
  show ?case
  proof (cases ps)
    case Nil
    then show ?thesis by (simp add: p appendPoint_def)
  next
    case (Cons q qs)
    then show ?thesis
      using Cons.IH [of "appendPoint b0 m t v ts"] ne
      by (simp add: p appendPoint_def)
  qed
qed

lemma gpuPayload_joinLines:
  "gpuPayload host ts g =
     joinLines (map (\<lambda>(m, v). formatPoint m (gpuTags host g) v ts) (gpuMetrics g))"
  unfolding gpuPayload_def foldl_appendPoint by (simp add: gpuMetrics_def)

lemma length_gpuMetrics: "length (gpuMetrics g) = 9"
  by (simp add: gpuMetrics_def)

lemma splitLines_single: "CHR 0x0A \<notin> set l \<Longrightarrow> splitLines l = [l]"
  by (induction l) auto

lemma splitLines_line: "CHR 0x0A \<notin> set l \<Longrightarrow> splitLines (l @ CHR 0x0A # s) = l # splitLines s"
  by (induction l) auto

lemma splitLines_joinLines:
  "ls \<noteq> [] \<Longrightarrow> (\<And>l. l \<in> set ls \<Longrightarrow> CHR 0x0A \<notin> set l) \<Longrightarrow> splitLines (joinLines ls) = ls"
proof (induction ls rule: joinLines.induct)
  case 1
  then show ?case by simp
next
  case (2 l)
  then show ?case by (simp add: splitLines_single)
next
  case (3 l k ks)
  then show ?case by (simp add: splitLines_line)
qed

lemma of_char_digitChar: "0 \<le> d \<Longrightarrow> d < 10 \<Longrightarrow> (of_char (digitChar d) :: int) = 48 + d"
  by (simp add: digitChar_def)

lemma digitChar_not_lf: "0 \<le> d \<Longrightarrow> d < 10 \<Longrightarrow> digitChar d \<noteq> CHR 0x0A"
proof
  assume d: "0 \<le> d" "d < 10" and "digitChar d = CHR 0x0A"
  then have "(of_char (digitChar d) :: int) = of_char (CHR 0x0A)" by simp
  then show False using of_char_digitChar [OF d] d by simp
qed

lemma showDigits_no_lf: "0 \<le> n \<Longrightarrow> CHR 0x0A \<notin> set (showDigits n)"
proof (induction n rule: showDigits.induct)
  case (1 n)
  show ?case
  proof (cases "n < 10")
    case True
    then have "digitChar n \<noteq> CHR 0x0A" using "1.prems" by (simp add: digitChar_not_lf)
    then show ?thesis using True by (subst showDigits.simps) auto
  next
    case False
    then have "CHR 0x0A \<notin> set (showDigits (n div 10))" using 1 by simp
    moreover have "digitChar (n mod 10) \<noteq> CHR 0x0A" by (rule digitChar_not_lf) simp_all
    ultimately show ?thesis using False by (subst showDigits.simps) auto
  qed
qed

lemma showInt_no_lf: "CHR 0x0A \<notin> set (showInt i)"
  by (simp add: showInt_def showDigits_no_lf)

lemma of_char_upperhex:
  "n < 16 \<Longrightarrow> (of_char (upperhex n) :: nat) = (if n < 10 then 48 + n else 55 + n)"
  by (simp add: upperhex_def)

lemma upperhex_not_lf: "n < 16 \<Longrightarrow> upperhex n \<noteq> CHR 0x0A"
proof
  assume n: "n < 16" and "upperhex n = CHR 0x0A"
  then have "(of_char (upperhex n) :: nat) = of_char (CHR 0x0A)" by simp
  then show False using of_char_upperhex [OF n] by (simp split: if_splits)
qed

lemma of_char_less_256: "(of_char c :: nat) < 256"
  by (cases c) simp

lemma QueryEscape_no_lf: "CHR 0x0A \<notin> set (QueryEscape s)"
proof (induction s)
  case Nil
  then show ?case by simp
next
  case (Cons c s)
  have "(of_char c :: nat) div 16 < 16"
    by (rule less_mult_imp_div_less) (use of_char_less_256 [of c] in simp)
  then have a: "upperhex (of_char c div 16) \<noteq> CHR 0x0A" by (rule upperhex_not_lf)
  have b: "upperhex (of_char c mod 16) \<noteq> CHR 0x0A" by (rule upperhex_not_lf) simp
  have c: "\<not> shouldEscape c \<Longrightarrow> c \<noteq> CHR 0x0A" by (auto simp: shouldEscape_def)
  show ?case using Cons a b c by auto
qed

lemma gpuTags_no_lf:
  "CHR 0x0A \<notin> set host \<Longrightarrow> CHR 0x0A \<notin> set (ID g) \<Longrightarrow> CHR 0x0A \<notin> set (gpuTags host g)"
  by (simp add: gpuTags_def QueryEscape_no_lf showInt_no_lf)

lemma formatPoint_no_lf:
  "CHR 0x0A \<notin> set m \<Longrightarrow> CHR 0x0A \<notin> set t \<Longrightarrow> CHR 0x0A \<notin> set (formatPoint m t v ts)"
  by (simp add: formatPoint_def showInt_no_lf)

lemma gpuMetrics_names_no_lf: "(m, v) \<in> set (gpuMetrics g) \<Longrightarrow> CHR 0x0A \<notin> set m"
  by (auto simp: gpuMetrics_def)

lemma splitLines_gpuPayload:
  assumes "CHR 0x0A \<notin> set host" and "CHR 0x0A \<notin> set (ID g)"
  shows "splitLines (gpuPayload host ts g)
       = map (\<lambda>(m, v). formatPoint m (gpuTags host g) v ts) (gpuMetrics g)"
proof -
  have t: "CHR 0x0A \<notin> set (gpuTags host g)" using assms by (rule gpuTags_no_lf)
  have "gpuMetrics g \<noteq> []" using length_gpuMetrics [of g] by auto
  then show ?thesis
    unfolding gpuPayload_joinLines
    by (intro splitLines_joinLines) (auto simp: formatPoint_no_lf t gpuMetrics_names_no_lf)
qed

subsection \<open>The database request\<close>

lemma postToInfluxdb_unfold:
  "postToInfluxdb nt (Some info) base host ts tr =
     postLoop nt (base @ ''write?db=GPU'') host ts (GPUInfoList info)
       (snd (getURL nt (base @ ''query?q=CREATE%20DATABASE%20GPU'') tr)
        @ (if fst (fst (getURL nt (base @ ''query?q=CREATE%20DATABASE%20GPU'') tr)) \<noteq> 200
           then [Errorf (''create database faild, code ''
                   @ showInt (fst (fst (getURL nt (base @ ''query?q=CREATE%20DATABASE%20GPU'') tr)))
                   @ '', '' @ snd (fst (getURL nt (base @ ''query?q=CREATE%20DATABASE%20GPU'') tr)))]
           else []))"
  by (simp add: postToInfluxdb_def Let_def split: prod.splits)

lemma getURL_trace:
  "snd (getURL nt url tr) = tr @ [HttpGet url, last (snd (getURL nt url tr))]
   \<and> \<not> isHttp (last (snd (getURL nt url tr)))"
  by (cases "nt (httpCalls tr)")
     (simp_all add: getURL_def Let_def split: option.splits)

lemma getURL_code:
  "creationFailed (nt (httpCalls tr)) \<Longrightarrow> fst (fst (getURL nt url tr)) \<noteq> 200"
  by (cases "nt (httpCalls tr)")
     (auto simp: getURL_def Let_def split: option.splits)

lemma postToInfluxdb_Some:
  "\<exists>log.
     postToInfluxdb nt (Some info) base host ts tr
       = postLoop nt (base @ ''write?db=GPU'') host ts (GPUInfoList info)
           (tr @ HttpGet (base @ ''query?q=CREATE%20DATABASE%20GPU'') # log)
     \<and> posts log = [] \<and> httpCalls log = 0
     \<and> (creationFailed (nt (httpCalls tr)) \<longrightarrow>
          (\<exists>code body. code \<noteq> 200 \<and>
             last log = Errorf (''create database faild, code '' @ showInt code @ '', '' @ body)))"
proof -
  let ?url = "base @ ''query?q=CREATE%20DATABASE%20GPU''"
  let ?code = "fst (fst (getURL nt ?url tr))"
  let ?body = "snd (fst (getURL nt ?url tr))"
  let ?err = "Errorf (''create database faild, code '' @ showInt ?code @ '', '' @ ?body)"
  define e where "e = last (snd (getURL nt ?url tr))"
  have e: "snd (getURL nt ?url tr) = tr @ [HttpGet ?url, e]" and quiet: "\<not> isHttp e"
    using getURL_trace [of nt ?url tr] by (simp_all add: e_def)
  define log where "log = e # (if ?code \<noteq> 200 then [?err] else [])"
  have run: "postToInfluxdb nt (Some info) base host ts tr
      = postLoop nt (base @ ''write?db=GPU'') host ts (GPUInfoList info) (tr @ HttpGet ?url # log)"
    unfolding postToInfluxdb_unfold e log_def by simp
  have p: "posts log = []"
    using quiet unfolding log_def by (cases e) simp_all
  have h: "httpCalls log = 0"
    using quiet unfolding log_def by (simp add: httpCalls_def)
  have l: "creationFailed (nt (httpCalls tr)) \<longrightarrow>
      (\<exists>code body. code \<noteq> 200 \<and>
         last log = Errorf (''create database faild, code '' @ showInt code @ '', '' @ body))"
  proof
    assume "creationFailed (nt (httpCalls tr))"
    then have "?code \<noteq> 200" by (rule getURL_code)
    then have "?code \<noteq> 200 \<and> last log = ?err" by (simp add: log_def)
    then show "\<exists>code body. code \<noteq> 200 \<and>
         last log = Errorf (''create database faild, code '' @ showInt code @ '', '' @ body)"
      by blast
  qed
  show ?thesis using run p h l by blast
qed


lemma postToInfluxdb_None:
  "\<exists>log. snd (postToInfluxdb nt None base host ts tr)
            = tr @ HttpGet (base @ ''query?q=CREATE%20DATABASE%20GPU'') # log
         \<and> posts log = []"
proof -
  let ?url = "base @ ''query?q=CREATE%20DATABASE%20GPU''"
  define e where "e = last (snd (getURL nt ?url tr))"
  have e: "snd (getURL nt ?url tr) = tr @ [HttpGet ?url, e]" and quiet: "\<not> isHttp e"
    using getURL_trace [of nt ?url tr] by (simp_all add: e_def)
  have pe: "posts [e] = []" using quiet by (cases e) simp_all
  obtain cb tr1 where g: "getURL nt ?url tr = (cb, tr1)" by (cases "getURL nt ?url tr")
  obtain code body where cb: "cb = (code, body)" by (cases cb)
  have tr1: "tr1 = tr @ [HttpGet ?url, e]" using e g by simp
  let ?log = "e # (if code \<noteq> 200
      then [Errorf (''create database faild, code '' @ showInt code @ '', '' @ body)] else [])"
  have "snd (postToInfluxdb nt None base host ts tr) = tr @ HttpGet ?url # ?log"
    by (simp add: postToInfluxdb_def Let_def g cb tr1)
  moreover have "posts ?log = []" using quiet by (cases e) simp_all
  ultimately show ?thesis by blast
qed

subsection \<open>Escaping and unescaping\<close>

lemma unhex_upperhex: "n < 16 \<Longrightarrow> unhex (upperhex n) = n"
  by (simp add: unhex_def of_char_upperhex Let_def)

lemma ishex_upperhex: "n < 16 \<Longrightarrow> ishex (upperhex n)"
  by (simp add: ishex_def of_char_upperhex Let_def)

lemma char_of_nibbles: "char_of ((of_char c :: nat) div 16 * 16 + of_char c mod 16) = c"
  by simp

lemma shouldEscape_marks: "shouldEscape CHR ''%''" "shouldEscape CHR ''+''"
  by (simp_all add: shouldEscape_def)

lemma QueryUnescape_escaped_byte:
  "QueryUnescape (CHR ''%'' # upperhex (of_char c div 16) # upperhex (of_char c mod 16) # s)
     = map_option ((#) c) (QueryUnescape s)"
proof -
  have hi: "(of_char c :: nat) div 16 < 16"
    by (rule less_mult_imp_div_less) (use of_char_less_256 [of c] in simp)
  have lo: "(of_char c :: nat) mod 16 < 16" by simp
  show ?thesis
    by (simp add: unhex_upperhex [OF hi] unhex_upperhex [OF lo]
        ishex_upperhex [OF hi] ishex_upperhex [OF lo])
qed

lemma QueryUnescape_QueryEscape: "QueryUnescape (QueryEscape s) = Some s"
proof (induction s)
  case Nil
  then show ?case by simp
next
  case (Cons c s)
  show ?case
  proof (cases "c = CHR '' ''")
    case True
    then show ?thesis using Cons by simp
  next
    case False
    show ?thesis
    proof (cases "shouldEscape c")
      case True
      then show ?thesis
        using False Cons by (simp only: QueryEscape.simps if_False if_True QueryUnescape_escaped_byte) simp
    next
      case False
      then have "c \<noteq> CHR ''%''" "c \<noteq> CHR ''+''" using shouldEscape_marks by auto
      then show ?thesis using False \<open>c \<noteq> CHR '' ''\<close> Cons by simp
    qed
  qed
qed

lemma QueryEscape_as_percentEncode:
  "QueryEscape s
     = concat (map (\<lambda>c. if c = CHR '' '' then ''+'' else spec_percentEncode [c]) s)"
  by (induction s) (simp_all add: shouldEscape_def)


subsection \<open>Parsing decimal numbers\<close>

lemma uint_small: "0 \<le> k \<Longrightarrow> k < 2 ^ 64 \<Longrightarrow> uint (word_of_int k :: 64 word) = k"
  by (simp add: uint_word_of_int take_bit_int_eq_self)

lemma digitValue_digit: "isDigit c \<Longrightarrow> digitValue c = Some (of_char c - 48)"
  by (simp add: isDigit_def digitValue_def Let_def)

lemma digit_range: "isDigit c \<Longrightarrow> 0 \<le> (of_char c :: int) - 48 \<and> (of_char c :: int) - 48 \<le> 9"
proof -
  assume "isDigit c"
  then have "48 \<le> int (of_char c) \<and> int (of_char c) \<le> 57" by (simp add: isDigit_def)
  then show ?thesis by (simp add: of_nat_of_char)
qed

lemma digit_of_nat: "isDigit c \<Longrightarrow> int ((of_char c :: nat) - 48) = of_char c - 48"
  by (simp add: isDigit_def of_nat_diff of_nat_of_char)

lemma digitValue_nondigit:
  "\<not> isDigit c \<Longrightarrow> digitValue c = None \<or> (\<exists>v. digitValue c = Some v \<and> 10 \<le> v)"
  unfolding isDigit_def digitValue_def Let_def by (simp split: if_splits) arith

lemma ParseUint_loop_nondigit:
  assumes "\<not> isDigit c"
  shows "ParseUint_loop n (c # xs) = (0, Some ErrSyntax)"
proof (cases "digitValue c")
  case None
  then show ?thesis by (simp only: ParseUint_loop.simps option.case)
next
  case (Some v)
  then have "10 \<le> v" using digitValue_nondigit [OF assms] by simp
  then show ?thesis using Some by (simp only: ParseUint_loop.simps option.case if_True)
qed

lemma decimalFrom_mono: "list_all isDigit ds \<Longrightarrow> 0 \<le> a \<Longrightarrow> a \<le> decimalFrom a ds"
proof (induction ds arbitrary: a)
  case Nil
  then show ?case by simp
next
  case (Cons c ds)
  then have d: "0 \<le> (of_char c :: int) - 48" using digit_range [of c] by simp
  have "10 * a + (of_char c - 48) \<le> decimalFrom (10 * a + (of_char c - 48)) ds"
    using Cons d by (intro Cons.IH) simp_all
  then show ?case using Cons.prems d by simp
qed

lemma step_cut:
  "0 \<le> a \<Longrightarrow> 10 * a + v < 2 ^ 64 \<Longrightarrow> 0 \<le> v \<Longrightarrow> \<not> cutoff10 \<le> (word_of_int a :: 64 word)"
proof -
  assume a: "0 \<le> a" and small: "10 * a + v < 2 ^ 64" and v: "0 \<le> v"
  have a64: "a < 2 ^ 64" using small v a by simp
  have ua: "uint (word_of_int a :: 64 word) = a" using a a64 by (rule uint_small)
  have uc: "uint cutoff10 = 1844674407370955162" by (simp add: cutoff10_def)
  have "a < 1844674407370955162" using small v by simp
  then show ?thesis unfolding word_le_def ua uc by simp
qed

lemma step_nowrap:
  "0 \<le> a \<Longrightarrow> 10 * a + v < 2 ^ 64 \<Longrightarrow> 0 \<le> v \<Longrightarrow>
   \<not> (word_of_int (10 * a + v) :: 64 word) < word_of_int (10 * a)"
proof -
  assume a: "0 \<le> a" and small: "10 * a + v < 2 ^ 64" and v: "0 \<le> v"
  have u10: "uint (word_of_int (10 * a) :: 64 word) = 10 * a"
    using a small v by (intro uint_small) simp_all
  have u1: "uint (word_of_int (10 * a + v) :: 64 word) = 10 * a + v"
    using a small v by (intro uint_small) simp_all
  show ?thesis unfolding word_less_def u10 u1 using v by simp
qed

lemma step_nomax: "\<not> maxVal64 < (w :: 64 word)"
proof -
  have "uint w < 2 ^ 64" using uint_bounded [of w] by simp
  then show ?thesis by (simp add: word_less_def maxVal64_def)
qed

lemma ParseUint_loop_step:
  assumes c: "isDigit c" and a: "0 \<le> a" and small: "10 * a + (of_char c - 48) < 2 ^ 64"
  shows "ParseUint_loop (word_of_int a) (c # xs)
       = ParseUint_loop (word_of_int (10 * a + (of_char c - 48))) xs"
proof -
  let ?v = "(of_char c :: int) - 48"
  have v: "0 \<le> ?v" "?v \<le> 9" using digit_range [OF c] by simp_all
  have v10: "\<not> 10 \<le> (of_char c :: nat) - 48" using c unfolding isDigit_def by arith
  have cut: "\<not> cutoff10 \<le> (word_of_int a :: 64 word)"
    using a small v(1) by (rule step_cut)
  have "(of_nat ((of_char c :: nat) - 48) :: 64 word) = word_of_int (int ((of_char c :: nat) - 48))"
    by simp
  then have dig: "(of_nat ((of_char c :: nat) - 48) :: 64 word) = word_of_int ?v"
    by (simp only: digit_of_nat [OF c])
  have n10: "(word_of_int a :: 64 word) * 10 = word_of_int (10 * a)" by simp
  have n1: "(word_of_int (10 * a) :: 64 word) + word_of_int ?v = word_of_int (10 * a + ?v)"
    by (simp only: of_int_add)
  have nowrap: "\<not> (word_of_int (10 * a + ?v) :: 64 word) < word_of_int (10 * a)"
    using a small v(1) by (rule step_nowrap)
  show ?thesis
    by (simp only: ParseUint_loop.simps digitValue_digit [OF c] option.case Let_def
        dig n10 n1 v10 cut nowrap step_nomax if_False simp_thms)
qed

lemma ParseUint_loop_digits:
  "list_all isDigit ds \<Longrightarrow> 0 \<le> a \<Longrightarrow> decimalFrom a ds < 2 ^ 64 \<Longrightarrow>
   ParseUint_loop (word_of_int a) (ds @ xs) = ParseUint_loop (word_of_int (decimalFrom a ds)) xs"
proof (induction ds arbitrary: a)
  case Nil
  then show ?case by simp
next
  case (Cons c ds)
  let ?a' = "10 * a + (of_char c - 48)"
  have c: "isDigit c" and ds: "list_all isDigit ds" using Cons.prems by simp_all
  have a': "0 \<le> ?a'" using digit_range [OF c] Cons.prems by simp
  have "?a' \<le> decimalFrom ?a' ds" using ds a' by (rule decimalFrom_mono)
  then have small: "?a' < 2 ^ 64" using Cons.prems by simp
  have "ParseUint_loop (word_of_int a) (c # ds @ xs) = ParseUint_loop (word_of_int ?a') (ds @ xs)"
    using c Cons.prems(2) small by (rule ParseUint_loop_step)
  also have "\<dots> = ParseUint_loop (word_of_int (decimalFrom ?a' ds)) xs"
    using ds a' Cons.prems by (intro Cons.IH) simp_all
  finally show ?case by simp
qed

lemma step_wrap:
  assumes a: "0 \<le> a" and cut: "a < 1844674407370955162" and v: "0 \<le> v" "v \<le> 9"
    and big: "2 ^ 64 \<le> 10 * a + v"
  shows "(word_of_int (10 * a + v) :: 64 word) < word_of_int (10 * a)"
proof -
  have u10: "uint (word_of_int (10 * a) :: 64 word) = 10 * a"
    using a cut by (intro uint_small) simp_all
  have eq: "(word_of_int (10 * a + v) :: 64 word) = word_of_int (10 * a + v - 2 ^ 64)"
    by (simp add: word_of_int_eq_iff take_bit_eq_mod)
  have u: "uint (word_of_int (10 * a + v - 2 ^ 64) :: 64 word) = 10 * a + v - 2 ^ 64"
    using big cut v by (intro uint_small) simp_all
  have u1: "uint (word_of_int (10 * a + v) :: 64 word) = 10 * a + v - 2 ^ 64"
    by (subst eq) (rule u)
  show ?thesis unfolding word_less_def u10 u1 using v by simp
qed

lemma cutoff_reached:
  "0 \<le> a \<Longrightarrow> a < 2 ^ 64 \<Longrightarrow>
   (cutoff10 \<le> (word_of_int a :: 64 word)) = (1844674407370955162 \<le> a)"
proof -
  assume a: "0 \<le> a" "a < 2 ^ 64"
  have ua: "uint (word_of_int a :: 64 word) = a" using a by (rule uint_small)
  have uc: "uint cutoff10 = 1844674407370955162" by (simp add: cutoff10_def)
  show ?thesis unfolding word_le_def ua uc by simp
qed

lemma ParseUint_loop_overflow:
  "list_all isDigit ds \<Longrightarrow> 0 \<le> a \<Longrightarrow> a < 2 ^ 64 \<Longrightarrow> 2 ^ 64 \<le> decimalFrom a ds \<Longrightarrow>
   ParseUint_loop (word_of_int a) (ds @ xs) = (maxVal64, Some ErrRange)"
proof (induction ds arbitrary: a)
  case Nil
  then show ?case by simp
next
  case (Cons c ds)
  let ?v = "(of_char c :: int) - 48"
  let ?a' = "10 * a + ?v"
  have c: "isDigit c" and ds: "list_all isDigit ds" using Cons.prems by simp_all
  have v: "0 \<le> ?v" "?v \<le> 9" using digit_range [OF c] by simp_all
  have v10: "\<not> 10 \<le> (of_char c :: nat) - 48" using c unfolding isDigit_def by arith
  have "(of_nat ((of_char c :: nat) - 48) :: 64 word) = word_of_int (int ((of_char c :: nat) - 48))"
    by simp
  then have dig: "(of_nat ((of_char c :: nat) - 48) :: 64 word) = word_of_int ?v"
    by (simp only: digit_of_nat [OF c])
  have n10: "(word_of_int a :: 64 word) * 10 = word_of_int (10 * a)" by simp
  have n1: "(word_of_int (10 * a) :: 64 word) + word_of_int ?v = word_of_int ?a'"
    by (simp only: of_int_add)
  show ?case
  proof (cases "1844674407370955162 \<le> a")
    case True
    then have "cutoff10 \<le> (word_of_int a :: 64 word)"
      using cutoff_reached [OF Cons.prems(2,3)] by simp
    then show ?thesis
      by (simp only: append_Cons ParseUint_loop.simps digitValue_digit [OF c] option.case
          v10 if_False if_True simp_thms)
  next
    case False
    then have cut: "\<not> cutoff10 \<le> (word_of_int a :: 64 word)"
      using cutoff_reached [OF Cons.prems(2,3)] by simp
    show ?thesis
    proof (cases "2 ^ 64 \<le> ?a'")
      case True
      have "(word_of_int ?a' :: 64 word) < word_of_int (10 * a)"
        using Cons.prems(2) _ v True by (rule step_wrap) (use False in simp)
      then show ?thesis
        by (simp only: append_Cons ParseUint_loop.simps digitValue_digit [OF c] option.case
            Let_def dig n10 n1 v10 cut if_False if_True simp_thms)
    next
      case False
      then have small: "?a' < 2 ^ 64" by simp
      have a': "0 \<le> ?a'" using Cons.prems(2) v by simp
      have "ParseUint_loop (word_of_int a) (c # ds @ xs) = ParseUint_loop (word_of_int ?a') (ds @ xs)"
        using c Cons.prems(2) small by (rule ParseUint_loop_step)
      also have "\<dots> = (maxVal64, Some ErrRange)"
        using ds a' small Cons.prems(4) by (intro Cons.IH) simp_all
      finally show ?thesis by simp
    qed
  qed
qed

lemma ParseUint_decimal:
  assumes "isDecimal ds" and "decimalValue ds < 2 ^ 64"
  shows "ParseUint ds = (word_of_int (decimalValue ds), None)"
proof -
  have "ParseUint_loop (word_of_int 0) (ds @ []) = ParseUint_loop (word_of_int (decimalFrom 0 ds)) []"
    using assms by (intro ParseUint_loop_digits) (simp_all add: isDecimal_def decimalValue_def)
  then show ?thesis
    using assms by (simp add: ParseUint_def isDecimal_def decimalValue_def ParseUint_loop.simps(1))
qed

lemma ParseUint_decimal_overflow:
  assumes "isDecimal ds" and "2 ^ 64 \<le> decimalValue ds"
  shows "ParseUint ds = (maxVal64, Some ErrRange)"
proof -
  have "ParseUint_loop (word_of_int 0) (ds @ []) = (maxVal64, Some ErrRange)"
    using assms by (intro ParseUint_loop_overflow) (simp_all add: isDecimal_def decimalValue_def)
  then show ?thesis
    using assms by (simp add: ParseUint_def isDecimal_def)
qed

lemma ParseUint_syntax:
  assumes "\<not> isDecimal s" and "decimalValue (takeWhile isDigit s) < 2 ^ 64"
  shows "ParseUint s = (0, Some ErrSyntax)"
proof (cases "s = []")
  case True
  then show ?thesis by (simp add: ParseUint_def)
next
  case False
  then have "\<not> list_all isDigit s" using assms(1) by (simp add: isDecimal_def)
  then have "dropWhile isDigit s \<noteq> []" by (simp add: list_all_iff)
  then obtain c rest where dw: "dropWhile isDigit s = c # rest" by (cases "dropWhile isDigit s") auto
  have c: "\<not> isDigit c" using hd_dropWhile [of isDigit s] dw by simp
  have split: "s = takeWhile isDigit s @ c # rest" using dw takeWhile_dropWhile_id [of isDigit s] by simp
  have tw: "list_all isDigit (takeWhile isDigit s)"
    unfolding list_all_iff by (blast dest: set_takeWhileD)
  have "ParseUint_loop (word_of_int 0) (takeWhile isDigit s @ c # rest)
      = ParseUint_loop (word_of_int (decimalFrom 0 (takeWhile isDigit s))) (c # rest)"
    using tw assms(2) by (intro ParseUint_loop_digits) (simp_all add: decimalValue_def)
  also have "\<dots> = (0, Some ErrSyntax)" using c by (rule ParseUint_loop_nondigit)
  finally have "ParseUint_loop 0 s = (0, Some ErrSyntax)" using split by simp
  then show ?thesis using False by (simp add: ParseUint_def)
qed

lemma cutoffInt64_le:
  "0 \<le> d \<Longrightarrow> d < 2 ^ 64 \<Longrightarrow> (cutoffInt64 \<le> (word_of_int d :: 64 word)) = (2 ^ 63 \<le> d)"
proof -
  assume d: "0 \<le> d" "d < 2 ^ 64"
  have ud: "uint (word_of_int d :: 64 word) = d" using d by (rule uint_small)
  have uc: "uint cutoffInt64 = 9223372036854775808" by (simp add: cutoffInt64_def)
  show ?thesis unfolding word_le_def ud uc by simp
qed

lemma cutoffInt64_less:
  "0 \<le> d \<Longrightarrow> d < 2 ^ 64 \<Longrightarrow> (cutoffInt64 < (word_of_int d :: 64 word)) = (2 ^ 63 < d)"
proof -
  assume d: "0 \<le> d" "d < 2 ^ 64"
  have ud: "uint (word_of_int d :: 64 word) = d" using d by (rule uint_small)
  have uc: "uint cutoffInt64 = 9223372036854775808" by (simp add: cutoffInt64_def)
  show ?thesis unfolding word_less_def ud uc by simp
qed

lemma cutoffInt64_maxVal64: "cutoffInt64 \<le> maxVal64" "cutoffInt64 < maxVal64"
  by (simp_all add: word_le_def word_less_def cutoffInt64_def maxVal64_def)

lemma decimalValue_nonneg: "list_all isDigit ds \<Longrightarrow> 0 \<le> decimalValue ds"
  using decimalFrom_mono [of ds 0] by (simp add: decimalValue_def)

lemma isInteger_cases:
  assumes "isInteger p"
  obtains (minus) ds where "p = CHR ''-'' # ds" "isDecimal ds" "integerValue p = - decimalValue ds"
    | (plus) ds where "p = CHR ''+'' # ds" "isDecimal ds" "integerValue p = decimalValue ds"
    | (plain) "isDecimal p" "hd p \<noteq> CHR ''-''" "hd p \<noteq> CHR ''+''" "integerValue p = decimalValue p"
proof (cases p)
  case Nil
  then show ?thesis using assms by (simp add: isInteger_def unsignedPart_def isDecimal_def)
next
  case (Cons c s)
  show ?thesis
  proof (cases "c = CHR ''-''")
    case True
    then show ?thesis using Cons assms minus
      by (simp add: isInteger_def unsignedPart_def integerValue_def)
  next
    case False
    show ?thesis
    proof (cases "c = CHR ''+''")
      case True
      then show ?thesis using Cons assms plus
        by (simp add: isInteger_def unsignedPart_def integerValue_def)
    next
      case plusF: False
      then show ?thesis using Cons assms False plain
        by (simp add: isInteger_def unsignedPart_def integerValue_def)
    qed
  qed
qed

lemma ParseInt_unfold:
  assumes "p \<noteq> []" and "ParseUint (unsignedPart p) = (un, err)"
  shows "ParseInt p =
     (if err = Some ErrSyntax then (0, err)
      else if hd p \<noteq> CHR ''-'' \<and> cutoffInt64 \<le> un then (cutoffInt64 - 1, Some ErrRange)
      else if hd p = CHR ''-'' \<and> cutoffInt64 < un then (- cutoffInt64, Some ErrRange)
      else (if hd p = CHR ''-'' then - un else un, None))"
proof -
  have up: "(if hd p = CHR ''+'' \<or> hd p = CHR ''-'' then tl p else p) = unsignedPart p"
    using assms(1) by (cases p) (simp_all add: unsignedPart_def)
  show ?thesis
    unfolding ParseInt_def Let_def up assms(2) prod.case using assms(1) by simp
qed

lemma ParseInt_integer:
  assumes int: "isInteger p" and lo: "- (2 ^ 63) \<le> integerValue p" and hi: "integerValue p < 2 ^ 63"
  shows "ParseInt p = (word_of_int (integerValue p), None)"
  using int
proof (cases rule: isInteger_cases)
  case (minus ds)
  have d: "0 \<le> decimalValue ds" "decimalValue ds \<le> 2 ^ 63"
    using minus lo decimalValue_nonneg [of ds] by (simp_all add: isDecimal_def)
  then have d64: "decimalValue ds < 2 ^ 64" by simp
  have pu: "ParseUint (unsignedPart p) = (word_of_int (decimalValue ds), None)"
    using ParseUint_decimal [OF minus(2) d64] minus(1) by (simp add: unsignedPart_def)
  have "\<not> cutoffInt64 < (word_of_int (decimalValue ds) :: 64 word)"
    using d cutoffInt64_less [OF d(1) d64] by simp
  then show ?thesis
    using ParseInt_unfold [OF _ pu] minus by simp
next
  case (plus ds)
  have d: "0 \<le> decimalValue ds" "decimalValue ds < 2 ^ 63"
    using plus hi decimalValue_nonneg [of ds] by (simp_all add: isDecimal_def)
  then have d64: "decimalValue ds < 2 ^ 64" by simp
  have pu: "ParseUint (unsignedPart p) = (word_of_int (decimalValue ds), None)"
    using ParseUint_decimal [OF plus(2) d64] plus(1) by (simp add: unsignedPart_def)
  have "\<not> cutoffInt64 \<le> (word_of_int (decimalValue ds) :: 64 word)"
    using d cutoffInt64_le [OF d(1) d64] by simp
  then show ?thesis
    using ParseInt_unfold [OF _ pu] plus by simp
next
  case plain
  have ne: "p \<noteq> []" using plain(1) by (simp add: isDecimal_def)
  have d: "0 \<le> decimalValue p" "decimalValue p < 2 ^ 63"
    using plain hi decimalValue_nonneg [of p] by (simp_all add: isDecimal_def)
  then have d64: "decimalValue p < 2 ^ 64" by simp
  have up: "unsignedPart p = p" using plain(2,3) ne by (cases p) (simp_all add: unsignedPart_def)
  have pu: "ParseUint (unsignedPart p) = (word_of_int (decimalValue p), None)"
    using ParseUint_decimal [OF plain(1) d64] up by simp
  have "\<not> cutoffInt64 \<le> (word_of_int (decimalValue p) :: 64 word)"
    using d cutoffInt64_le [OF d(1) d64] by simp
  then show ?thesis
    using ParseInt_unfold [OF ne pu] plain by simp
qed

lemma ParseInt_syntax:
  assumes "\<not> isInteger p" and "decimalValue (takeWhile isDigit (unsignedPart p)) < 2 ^ 64"
  shows "ParseInt p = (0, Some ErrSyntax)"
proof (cases "p = []")
  case True
  then show ?thesis by (simp add: ParseInt_def)
next
  case False
  have "ParseUint (unsignedPart p) = (0, Some ErrSyntax)"
    using assms by (intro ParseUint_syntax) (simp_all add: isInteger_def)
  from ParseInt_unfold [OF False this] show ?thesis by simp
qed

lemma sint_small:
  "- (2 ^ 63) \<le> k \<Longrightarrow> k < 2 ^ 63 \<Longrightarrow> sint (word_of_int k :: 64 word) = k"
  by (simp add: signed_of_int signed_take_bit_int_eq_self)

lemma ParseUint_integer_range:
  assumes "isDecimal ds" and "2 ^ 63 \<le> decimalValue ds"
  shows "\<exists>un err. ParseUint ds = (un, err) \<and> err \<noteq> Some ErrSyntax \<and> cutoffInt64 \<le> un
     \<and> (2 ^ 63 < decimalValue ds \<longrightarrow> cutoffInt64 < un)"
proof (cases "decimalValue ds < 2 ^ 64")
  case True
  have d: "0 \<le> decimalValue ds" using assms by simp
  have "ParseUint ds = (word_of_int (decimalValue ds), None)"
    using assms(1) True by (rule ParseUint_decimal)
  then show ?thesis
    using cutoffInt64_le [OF d True] cutoffInt64_less [OF d True] assms(2) by simp
next
  case False
  then have "ParseUint ds = (maxVal64, Some ErrRange)"
    using assms(1) by (intro ParseUint_decimal_overflow) simp_all
  then show ?thesis using cutoffInt64_maxVal64 by simp
qed

lemma ParseInt_range_pos:
  assumes int: "isInteger p" and big: "2 ^ 63 \<le> integerValue p"
  shows "ParseInt p = (cutoffInt64 - 1, Some ErrRange)"
  using int
proof (cases rule: isInteger_cases)
  case (minus ds)
  then have "integerValue p \<le> 0" using decimalValue_nonneg [of ds] by (simp add: isDecimal_def)
  then show ?thesis using big by simp
next
  case (plus ds)
  then obtain un err where pu: "ParseUint (unsignedPart p) = (un, err)"
      and ok: "err \<noteq> Some ErrSyntax" "cutoffInt64 \<le> un"
    using ParseUint_integer_range [of ds] big by (auto simp: unsignedPart_def)
  show ?thesis using ParseInt_unfold [OF _ pu] plus ok by simp
next
  case plain
  have ne: "p \<noteq> []" using plain(1) by (simp add: isDecimal_def)
  have up: "unsignedPart p = p" using plain(2,3) ne by (cases p) (simp_all add: unsignedPart_def)
  obtain un err where pu: "ParseUint (unsignedPart p) = (un, err)"
      and ok: "err \<noteq> Some ErrSyntax" "cutoffInt64 \<le> un"
    using ParseUint_integer_range [of p] big plain up by auto
  show ?thesis using ParseInt_unfold [OF ne pu] plain ok by simp
qed

lemma ParseInt_range_neg:
  assumes int: "isInteger p" and big: "integerValue p < - (2 ^ 63)"
  shows "ParseInt p = (- cutoffInt64, Some ErrRange)"
  using int
proof (cases rule: isInteger_cases)
  case (minus ds)
  then have "2 ^ 63 < decimalValue ds" using big by simp
  then obtain un err where pu: "ParseUint (unsignedPart p) = (un, err)"
      and ok: "err \<noteq> Some ErrSyntax" "cutoffInt64 < un"
    using ParseUint_integer_range [of ds] minus by (auto simp: unsignedPart_def)
  show ?thesis using ParseInt_unfold [OF _ pu] minus ok by simp
next
  case (plus ds)
  then have "0 \<le> integerValue p" using decimalValue_nonneg [of ds] by (simp add: isDecimal_def)
  then show ?thesis using big by simp
next
  case plain
  then have "0 \<le> integerValue p" using decimalValue_nonneg [of p] by (simp add: isDecimal_def)
  then show ?thesis using big by simp
qed

subsection \<open>Removing the unit\<close>

lemma HasPrefix_boundary_MiB:
  "p \<noteq> [] \<Longrightarrow> HasPrefix (p @ '' MiB'') '' MiB'' \<Longrightarrow> HasPrefix p '' MiB''"
  by (cases p; cases "tl p"; cases "tl (tl p)"; cases "tl (tl (tl p))")
     (auto simp: HasPrefix_def)

lemma HasPrefix_boundary_percent:
  "p \<noteq> [] \<Longrightarrow> HasPrefix (p @ '' %'') '' %'' \<Longrightarrow> HasPrefix p '' %''"
  by (cases p; cases "tl p") (auto simp: HasPrefix_def)

lemma Replace_suffix_MiB: "\<not> Contains p '' MiB'' \<Longrightarrow> Replace (p @ '' MiB'') '' MiB'' [] = p"
proof (induction p)
  case Nil
  have "Replace '' MiB'' '' MiB'' [] = Replace [] '' MiB'' []"
    by (subst Replace.simps) (simp add: HasPrefix_def)
  then show ?case by (simp add: Replace.simps [of "[]"])
next
  case (Cons c p)
  then have np: "\<not> HasPrefix (c # p) '' MiB''" and rest: "\<not> Contains p '' MiB''" by simp_all
  have "\<not> HasPrefix ((c # p) @ '' MiB'') '' MiB''"
    using np HasPrefix_boundary_MiB [of "c # p"] by blast
  then have "Replace ((c # p) @ '' MiB'') '' MiB'' [] = c # Replace (p @ '' MiB'') '' MiB'' []"
    by (subst Replace.simps) simp
  then show ?case using Cons.IH [OF rest] by simp
qed

lemma Replace_suffix_percent: "\<not> Contains p '' %'' \<Longrightarrow> Replace (p @ '' %'') '' %'' [] = p"
proof (induction p)
  case Nil
  have "Replace '' %'' '' %'' [] = Replace [] '' %'' []"
    by (subst Replace.simps) (simp add: HasPrefix_def)
  then show ?case by (simp add: Replace.simps [of "[]"])
next
  case (Cons c p)
  then have np: "\<not> HasPrefix (c # p) '' %''" and rest: "\<not> Contains p '' %''" by simp_all
  have "\<not> HasPrefix ((c # p) @ '' %'') '' %''"
    using np HasPrefix_boundary_percent [of "c # p"] by blast
  then have "Replace ((c # p) @ '' %'') '' %'' [] = c # Replace (p @ '' %'') '' %'' []"
    by (subst Replace.simps) simp
  then show ?case using Cons.IH [OF rest] by simp
qed

lemma no_space_not_Contains: "CHR '' '' \<notin> set p \<Longrightarrow> \<not> Contains p (CHR '' '' # t)"
  by (induction p) (auto simp: HasPrefix_def)

lemma isDecimal_no_space: "isDecimal ds \<Longrightarrow> CHR '' '' \<notin> set ds"
  by (auto simp: isDecimal_def list_all_iff isDigit_def)

lemma isInteger_no_space: "isInteger p \<Longrightarrow> CHR '' '' \<notin> set p"
  by (cases rule: isInteger_cases) (auto dest: isDecimal_no_space)

lemma memUsage2Int_suffix:
  "\<not> Contains p '' MiB'' \<Longrightarrow> memUsage2Int (p @ '' MiB'') = fst (ParseInt p) * 1024 * 1024"
  by (simp add: memUsage2Int_def HasSuffix_def Replace_suffix_MiB Let_def split: prod.splits)

lemma utilization2Float_suffix:
  "\<not> Contains p '' %'' \<Longrightarrow> utilization2Float (p @ '' %'') = fst (ParseInt p)"
  by (simp add: utilization2Float_def HasSuffix_def Replace_suffix_percent Let_def split: prod.splits)

lemma clamp_scaled:
  "sint ((cutoffInt64 - 1) * 1024 * 1024 :: 64 word) = - 1048576"
  "(- cutoffInt64) * 1024 * 1024 = (0 :: 64 word)"
  "sint (cutoffInt64 - 1 :: 64 word) = 2 ^ 63 - 1"
  "sint (- cutoffInt64 :: 64 word) = - (2 ^ 63)"
  by (simp_all add: cutoffInt64_def)

section \<open>Properties\<close>

subsection \<open>Sampling failures\<close>

text \<open>
  C1. The claim: when the diagnostic command fails, the error is logged, transformation
  and publishing are skipped for that round, the process does not crash and the next
  round samples again. The program logs the error, but then calls \<^verbatim>\<open>postToInfluxdb\<close>
  with the \<^verbatim>\<open>nil\<close> report all the same: the database request is sent, reading the
  device list through the \<^verbatim>\<open>nil\<close> pointer panics, and the second round never runs.
  Run for two rounds with a command that fails in the first round only:
\<close>

theorem C1_sampling_failure_panics:
  "main envSmiFails 2 =
     (Inl NilPointerDereference,
      [Exec,
       Errorf ''get GPU info error: exit status 9'',
       HttpGet ''http://influxdb:8086/query?q=CREATE%20DATABASE%20GPU'',
       Infof ''got response {}''])
   \<and> samplings (snd (main envSmiFails 2)) = 1"
  by code_simp

subsection \<open>Publishing failures\<close>

text \<open>
  C2. The claim: every publishing failure, connection errors included, is only logged,
  and the process never exits. When the write request cannot be made, \<^verbatim>\<open>postURL\<close> logs
  the error and goes on to read \<^verbatim>\<open>resp.Body\<close> of the \<^verbatim>\<open>nil\<close> response: the process
  panics in the first round and the second round never runs. (\<^verbatim>\<open>getURL\<close> returns after
  logging the same kind of error.)
\<close>

theorem C2_refused_write_panics:
  "main (envWriteRefused [teslaK80]) 2 =
     (Inl NilPointerDereference,
      [Exec,
       HttpGet ''http://influxdb:8086/query?q=CREATE%20DATABASE%20GPU'',
       Infof ''got response {}'',
       Infof (''posting: '' @ gpuPayload ''node1'' 1500000000000000000 teslaK80),
       HttpPost ''http://influxdb:8086/write?db=GPU'' ''plain/text''
         (gpuPayload ''node1'' 1500000000000000000 teslaK80),
       Errorf ''post error: dial tcp: connection refused''])
   \<and> samplings (snd (main (envWriteRefused [teslaK80]) 2)) = 1"
  by code_simp

subsection \<open>One write request per GPU\<close>

text \<open>
  C3 as claimed: all points of a round, for all devices, go into one payload and one
  write request. The loop resets the buffer for every GPU and posts inside the loop:
  with two GPUs and a healthy sink a round makes two write requests, each with the nine
  points of one GPU.
\<close>

theorem C3_two_gpus_two_writes:
  "posts (snd (postToInfluxdb healthy (Some (report [teslaK80, oddGPU]))
                 ''http://influxdb:8086/'' ''node1'' 1500000000000000000 []))
     = [(''http://influxdb:8086/write?db=GPU'', ''plain/text'',
         gpuPayload ''node1'' 1500000000000000000 teslaK80),
        (''http://influxdb:8086/write?db=GPU'', ''plain/text'',
         gpuPayload ''node1'' 1500000000000000000 oddGPU)]
   \<and> length (posts (snd (postToInfluxdb healthy (Some (report [teslaK80, oddGPU]))
                 ''http://influxdb:8086/'' ''node1'' 1500000000000000000 []))) = 2"
  by code_simp

text \<open>
  C3 as amended: for every decoded report, in a round whose write requests are all
  answered, there is one write request per GPU, in the order of the report; the body of
  each is the nine points of that GPU joined by line feeds, which is one point per line
  whenever neither the host name nor the GPU's id contains a line feed. The round then
  ends normally. (The database request may fail or not.)
\<close>

theorem C3_one_write_per_gpu:
  assumes "\<forall>i < length (GPUInfoList info). answered (nt (Suc (httpCalls tr) + i))"
  shows "fst (postToInfluxdb nt (Some info) base host ts tr) = Inr ()
       \<and> posts (snd (postToInfluxdb nt (Some info) base host ts tr))
           = posts tr @ map (\<lambda>g. (base @ ''write?db=GPU'', ''plain/text'', gpuPayload host ts g))
                          (GPUInfoList info)
       \<and> (\<forall>g. gpuPayload host ts g
               = joinLines (map (\<lambda>(m, v). formatPoint m (gpuTags host g) v ts) (gpuMetrics g))
             \<and> length (gpuMetrics g) = 9)
       \<and> (\<forall>g. CHR 0x0A \<notin> set host \<and> CHR 0x0A \<notin> set (ID g) \<longrightarrow>
               splitLines (gpuPayload host ts g)
                 = map (\<lambda>(m, v). formatPoint m (gpuTags host g) v ts) (gpuMetrics g))"
proof -
  let ?get = "HttpGet (base @ ''query?q=CREATE%20DATABASE%20GPU'')"
  let ?w = "base @ ''write?db=GPU''"
  obtain log where run: "postToInfluxdb nt (Some info) base host ts tr
        = postLoop nt ?w host ts (GPUInfoList info) (tr @ ?get # log)"
    and quiet: "posts log = []" "httpCalls log = 0"
    using postToInfluxdb_Some [of nt info base host ts tr] by blast
  have calls: "httpCalls (tr @ ?get # log) = Suc (httpCalls tr)"
    using quiet by (simp add: httpCalls_def)
  have sent: "posts (tr @ ?get # log) = posts tr"
    using quiet by (simp add: posts_append)
  have ans: "\<And>i. i < length (GPUInfoList info) \<Longrightarrow> answered (nt (httpCalls (tr @ ?get # log) + i))"
    using assms calls by simp
  have "fst (postLoop nt ?w host ts (GPUInfoList info) (tr @ ?get # log)) = Inr ()
      \<and> posts (snd (postLoop nt ?w host ts (GPUInfoList info) (tr @ ?get # log)))
          = posts (tr @ ?get # log)
            @ map (\<lambda>g. (?w, ''plain/text'', gpuPayload host ts g)) (GPUInfoList info)"
    by (rule postLoop_answered) (rule ans)
  then have "fst (postToInfluxdb nt (Some info) base host ts tr) = Inr ()"
    and "posts (snd (postToInfluxdb nt (Some info) base host ts tr))
           = posts tr @ map (\<lambda>g. (?w, ''plain/text'', gpuPayload host ts g)) (GPUInfoList info)"
    using run sent by simp_all
  then show ?thesis
    using gpuPayload_joinLines length_gpuMetrics splitLines_gpuPayload by blast
qed

theorem C3_one_write_per_gpu_witness:
  "answered ok200
   \<and> fst (postToInfluxdb healthy (Some (report [teslaK80, oddGPU]))
            ''http://influxdb:8086/'' ''node1'' 1500000000000000000 []) = Inr ()
   \<and> posts (snd (postToInfluxdb healthy (Some (report [teslaK80, oddGPU]))
                   ''http://influxdb:8086/'' ''node1'' 1500000000000000000 []))
       = [(''http://influxdb:8086/write?db=GPU'', ''plain/text'',
           gpuPayload ''node1'' 1500000000000000000 teslaK80),
          (''http://influxdb:8086/write?db=GPU'', ''plain/text'',
           gpuPayload ''node1'' 1500000000000000000 oddGPU)]
   \<and> splitLines (gpuPayload ''node1'' 1500000000000000000 teslaK80)
       = map (\<lambda>(m, v). formatPoint m (gpuTags ''node1'' teslaK80) v 1500000000000000000)
           (gpuMetrics teslaK80)"
proof -
  have ok: "answered ok200" by (simp add: ok200_def)
  then have all: "\<forall>i < length (GPUInfoList (report [teslaK80, oddGPU])).
      answered (healthy (Suc (httpCalls []) + i))"
    by (simp add: healthy_def)
  have lf: "CHR 0x0A \<notin> set ''node1'' \<and> CHR 0x0A \<notin> set (ID teslaK80)"
    by (simp add: teslaK80_def)
  note round = C3_one_write_per_gpu [OF all, of "''http://influxdb:8086/''" "''node1''"
      1500000000000000000]
  have a: "fst (postToInfluxdb healthy (Some (report [teslaK80, oddGPU]))
            ''http://influxdb:8086/'' ''node1'' 1500000000000000000 []) = Inr ()"
    by (rule round [THEN conjunct1])
  have b: "posts (snd (postToInfluxdb healthy (Some (report [teslaK80, oddGPU]))
                   ''http://influxdb:8086/'' ''node1'' 1500000000000000000 []))
       = [(''http://influxdb:8086/write?db=GPU'', ''plain/text'',
           gpuPayload ''node1'' 1500000000000000000 teslaK80),
          (''http://influxdb:8086/write?db=GPU'', ''plain/text'',
           gpuPayload ''node1'' 1500000000000000000 oddGPU)]"
    using round [THEN conjunct2, THEN conjunct1] by (simp add: report_def)
  have c: "splitLines (gpuPayload ''node1'' 1500000000000000000 teslaK80)
       = map (\<lambda>(m, v). formatPoint m (gpuTags ''node1'' teslaK80) v 1500000000000000000)
           (gpuMetrics teslaK80)"
    using round [THEN conjunct2, THEN conjunct2, THEN conjunct2] lf by blast
  show ?thesis
    using ok a b c by (intro conjI)
qed

subsection \<open>Nine points per GPU\<close>

text \<open>
  Every GPU the loop reaches gives nine points, in the order frame buffer
  total/used/free, BAR1 total/used/free, gpu, encoder, decoder, all with the tags
  \<open>gpuTags\<close> of that GPU (host name, GPU id, escaped product name, minor number) and
  the timestamp of the round. The loop reaches every GPU when the writes before the last
  one are answered, and then the round has \<open>9 \<times> N\<close> points.
\<close>

lemma round_points_when_answered:
  assumes "\<forall>i. Suc i < length (GPUInfoList info) \<longrightarrow> answered (nt (Suc (httpCalls tr) + i))"
  shows "posts (snd (postToInfluxdb nt (Some info) base host ts tr))
           = posts tr @ map (\<lambda>g. (base @ ''write?db=GPU'', ''plain/text'', gpuPayload host ts g))
                          (GPUInfoList info)"
    and "length (concat (map (\<lambda>g. map (\<lambda>(m, v). formatPoint m (gpuTags host g) v ts)
                                       (gpuMetrics g)) (GPUInfoList info)))
           = 9 * length (GPUInfoList info)"
proof -
  let ?get = "HttpGet (base @ ''query?q=CREATE%20DATABASE%20GPU'')"
  let ?w = "base @ ''write?db=GPU''"
  obtain log where run: "postToInfluxdb nt (Some info) base host ts tr
        = postLoop nt ?w host ts (GPUInfoList info) (tr @ ?get # log)"
    and quiet: "posts log = []" "httpCalls log = 0"
    using postToInfluxdb_Some [of nt info base host ts tr] by blast
  have calls: "httpCalls (tr @ ?get # log) = Suc (httpCalls tr)"
    using quiet by (simp add: httpCalls_def)
  have sent: "posts (tr @ ?get # log) = posts tr"
    using quiet by (simp add: posts_append)
  have ans: "\<And>i. Suc i < length (GPUInfoList info) \<Longrightarrow>
      answered (nt (httpCalls (tr @ ?get # log) + i))"
    using assms calls by simp
  have "posts (snd (postLoop nt ?w host ts (GPUInfoList info) (tr @ ?get # log)))
      = posts (tr @ ?get # log)
        @ map (\<lambda>g. (?w, ''plain/text'', gpuPayload host ts g)) (GPUInfoList info)"
    by (rule postLoop_all_but_last_answered) (rule ans)
  then show "posts (snd (postToInfluxdb nt (Some info) base host ts tr))
           = posts tr @ map (\<lambda>g. (?w, ''plain/text'', gpuPayload host ts g)) (GPUInfoList info)"
    using run sent by simp
  show "length (concat (map (\<lambda>g. map (\<lambda>(m, v). formatPoint m (gpuTags host g) v ts)
                                       (gpuMetrics g)) (GPUInfoList info)))
           = 9 * length (GPUInfoList info)"
    by (induction "GPUInfoList info" arbitrary: info) (simp_all add: length_gpuMetrics length_concat o_def sum_list_triv)
qed

text \<open>
  C4. The claim: a report with \<open>N\<close> devices gives exactly \<open>9 \<times> N\<close> points in the round,
  tagged as above and with one timestamp. With two GPUs and a sink that refuses the
  first write, \<^verbatim>\<open>postURL\<close> panics on the \<^verbatim>\<open>nil\<close> response after the nine points of the
  first GPU; the second GPU is never reached: 9 points, not 18.
\<close>

theorem C4_refused_write_cuts_round:
  "fst (main (envWriteRefused [teslaK80, oddGPU]) 1) = Inl NilPointerDereference
   \<and> posts (snd (main (envWriteRefused [teslaK80, oddGPU]) 1))
       = [(''http://influxdb:8086/write?db=GPU'', ''plain/text'',
           gpuPayload ''node1'' 1500000000000000000 teslaK80)]
   \<and> length (pointsGenerated (snd (main (envWriteRefused [teslaK80, oddGPU]) 1))) = 9
   \<and> 9 * length (GPUInfoList (report [teslaK80, oddGPU])) = 18"
  by code_simp

subsection \<open>The database request comes first\<close>

text \<open>
  C7. In every round that reaches \<^verbatim>\<open>postToInfluxdb\<close>, with or without a report, the
  first thing sent is the request \<^verbatim>\<open>query?q=CREATE%20DATABASE%20GPU\<close>. Without a
  report nothing is written after it. With a report, what is logged before the first
  write (\<open>log\<close>) contains no request; when the database request has failed, the last
  entry of \<open>log\<close> is the error \<^verbatim>\<open>create database faild\<close> with a code other than 200;
  and the rest of the round is the write loop, run on the answers to the requests that
  follow, whatever the database request gave: with at least one GPU the first write is
  attempted.
\<close>

theorem C7_database_request_first:
  "(\<exists>log. snd (postToInfluxdb nt None base host ts tr)
            = tr @ HttpGet (base @ ''query?q=CREATE%20DATABASE%20GPU'') # log
         \<and> posts log = [])
   \<and> (\<exists>log rest.
     snd (postToInfluxdb nt (Some info) base host ts tr)
       = tr @ HttpGet (base @ ''query?q=CREATE%20DATABASE%20GPU'') # log @ rest
     \<and> posts log = [] \<and> httpCalls log = 0
     \<and> (creationFailed (nt (httpCalls tr)) \<longrightarrow>
          (\<exists>code body. code \<noteq> 200 \<and>
             last log = Errorf (''create database faild, code '' @ showInt code @ '', '' @ body)))
     \<and> (fst (postToInfluxdb nt (Some info) base host ts tr), rest)
         = postLoop (\<lambda>k. nt (Suc (httpCalls tr) + k)) (base @ ''write?db=GPU'') host ts
             (GPUInfoList info) []
     \<and> (\<forall>g gs. GPUInfoList info = g # gs \<longrightarrow>
          (\<exists>more. posts rest
             = (base @ ''write?db=GPU'', ''plain/text'', gpuPayload host ts g) # more)))"
proof (rule conjI)
  show "\<exists>log. snd (postToInfluxdb nt None base host ts tr)
            = tr @ HttpGet (base @ ''query?q=CREATE%20DATABASE%20GPU'') # log
         \<and> posts log = []"
    by (rule postToInfluxdb_None)
next
  let ?get = "HttpGet (base @ ''query?q=CREATE%20DATABASE%20GPU'')"
  let ?w = "base @ ''write?db=GPU''"
  let ?nt' = "\<lambda>k. nt (Suc (httpCalls tr) + k)"
  obtain log where run: "postToInfluxdb nt (Some info) base host ts tr
        = postLoop nt ?w host ts (GPUInfoList info) (tr @ ?get # log)"
    and quiet: "posts log = []" "httpCalls log = 0"
    and logged: "creationFailed (nt (httpCalls tr)) \<longrightarrow>
          (\<exists>code body. code \<noteq> 200 \<and>
             last log = Errorf (''create database faild, code '' @ showInt code @ '', '' @ body))"
    using postToInfluxdb_Some [of nt info base host ts tr] by blast
  have calls: "httpCalls (tr @ ?get # log) = Suc (httpCalls tr)"
    using quiet by (simp add: httpCalls_def)
  define rest where "rest = snd (postLoop ?nt' ?w host ts (GPUInfoList info) [])"
  have shift: "postLoop nt ?w host ts (GPUInfoList info) (tr @ ?get # log)
      = (fst (postLoop ?nt' ?w host ts (GPUInfoList info) []), (tr @ ?get # log) @ rest)"
    unfolding rest_def using postLoop_shift [of nt ?w host ts "GPUInfoList info" "tr @ ?get # log"]
    by (simp only: calls)
  have first: "\<forall>g gs. GPUInfoList info = g # gs \<longrightarrow>
      (\<exists>more. posts rest = (?w, ''plain/text'', gpuPayload host ts g) # more)"
    unfolding rest_def using postLoop_first_write [of ?nt' ?w host ts] by auto
  have "snd (postToInfluxdb nt (Some info) base host ts tr) = tr @ ?get # log @ rest"
    using run shift by simp
  moreover have "(fst (postToInfluxdb nt (Some info) base host ts tr), rest)
      = postLoop ?nt' ?w host ts (GPUInfoList info) []"
    using run shift by (simp add: rest_def)
  ultimately show "\<exists>log rest.
     snd (postToInfluxdb nt (Some info) base host ts tr)
       = tr @ HttpGet (base @ ''query?q=CREATE%20DATABASE%20GPU'') # log @ rest
     \<and> posts log = [] \<and> httpCalls log = 0
     \<and> (creationFailed (nt (httpCalls tr)) \<longrightarrow>
          (\<exists>code body. code \<noteq> 200 \<and>
             last log = Errorf (''create database faild, code '' @ showInt code @ '', '' @ body)))
     \<and> (fst (postToInfluxdb nt (Some info) base host ts tr), rest)
         = postLoop (\<lambda>k. nt (Suc (httpCalls tr) + k)) (base @ ''write?db=GPU'') host ts
             (GPUInfoList info) []
     \<and> (\<forall>g gs. GPUInfoList info = g # gs \<longrightarrow>
          (\<exists>more. posts rest
             = (base @ ''write?db=GPU'', ''plain/text'', gpuPayload host ts g) # more))"
    using quiet logged first by blast
qed

theorem C7_database_request_first_witness:
  "creationFailed (createRefused (httpCalls []))
   \<and> GPUInfoList (report [teslaK80]) = teslaK80 # []
   \<and> (\<exists>log rest.
        snd (postToInfluxdb createRefused (Some (report [teslaK80])) ''http://influxdb:8086/''
               ''node1'' 1500000000000000000 [])
          = [] @ HttpGet (''http://influxdb:8086/'' @ ''query?q=CREATE%20DATABASE%20GPU'') # log @ rest
        \<and> (\<exists>code body. code \<noteq> 200 \<and>
              last log = Errorf (''create database faild, code '' @ showInt code @ '', '' @ body))
        \<and> (\<exists>more. posts rest
              = (''http://influxdb:8086/'' @ ''write?db=GPU'', ''plain/text'',
                 gpuPayload ''node1'' 1500000000000000000 teslaK80) # more))"
proof -
  have failed: "creationFailed (createRefused (httpCalls []))"
    by (simp add: createRefused_def refused_def httpCalls_def)
  have gpus: "GPUInfoList (report [teslaK80]) = teslaK80 # []"
    by (simp add: report_def)
  show ?thesis
    using failed gpus
      C7_database_request_first [THEN conjunct2, of createRefused "report [teslaK80]"
        "''http://influxdb:8086/''" "''node1''" 1500000000000000000 "[]"]
    by blast
qed

subsection \<open>The memory utilization is not published\<close>

text \<open>
  C9. Two reports that differ only in the \<^verbatim>\<open>memory_util\<close> fields of their GPUs give the
  same payloads, and the same round: the same outcome and the same trace, for every
  behaviour of the sink.
\<close>

theorem C9_memory_util_not_observable:
  assumes "sameExceptMemoryUtil a b"
  shows "map (gpuPayload host ts) (GPUInfoList a) = map (gpuPayload host ts) (GPUInfoList b)
       \<and> postToInfluxdb nt (Some a) base host ts tr = postToInfluxdb nt (Some b) base host ts tr"
proof -
  have eq: "map (gpuPayload host ts) (GPUInfoList a) = map (gpuPayload host ts) (GPUInfoList b)"
    by (rule payloads_sameExcept [OF assms])
  have "\<And>url tr'. postLoop nt url host ts (GPUInfoList a) tr'
                  = postLoop nt url host ts (GPUInfoList b) tr'"
    by (rule postLoop_cong_payload [OF eq])
  then show ?thesis
    using eq by (simp add: postToInfluxdb_def Let_def split: prod.splits)
qed

theorem C9_memory_util_not_observable_witness:
  "sameExceptMemoryUtil (report [teslaK80]) (report [busyGPU])
   \<and> MemoryUtil (Utilization teslaK80) \<noteq> MemoryUtil (Utilization busyGPU)
   \<and> map (gpuPayload ''node1'' 1500000000000000000) (GPUInfoList (report [teslaK80]))
       = map (gpuPayload ''node1'' 1500000000000000000) (GPUInfoList (report [busyGPU]))
   \<and> postToInfluxdb healthy (Some (report [teslaK80])) ''http://influxdb:8086/'' ''node1''
         1500000000000000000 []
       = postToInfluxdb healthy (Some (report [busyGPU])) ''http://influxdb:8086/'' ''node1''
           1500000000000000000 []"
proof -
  have same: "sameExceptMemoryUtil (report [teslaK80]) (report [busyGPU])"
    by (simp add: sameExceptMemoryUtil_def report_def eraseMemoryUtil_def busyGPU_def teslaK80_def)
  have differ: "MemoryUtil (Utilization teslaK80) \<noteq> MemoryUtil (Utilization busyGPU)"
    by (simp add: busyGPU_def teslaK80_def)
  show ?thesis
    using same differ
      C9_memory_util_not_observable [OF same, of "''node1''" 1500000000000000000 healthy
        "''http://influxdb:8086/''" "[]"]
    by simp
qed

subsection \<open>The product name in the tags\<close>

text \<open>
  C8 as claimed: a product name with characters that need escaping, such as spaces,
  appears percent-encoded in the tags, and URL-decoding gives the name back.
  \<^verbatim>\<open>QueryEscape\<close> writes a space as \<^verbatim>\<open>+\<close>: the tag of \<^verbatim>\<open>Tesla K80\<close> is
  \<^verbatim>\<open>product=Tesla+K80\<close>, not the percent-encoding \<^verbatim>\<open>Tesla%20K80\<close>, and
  percent-decoding it gives \<^verbatim>\<open>Tesla+K80\<close>.
\<close>

theorem C8_space_becomes_plus:
  "gpuTags ''node1'' teslaK80 = ''hostname=node1,gpuid=0,product=Tesla+K80,minor=0''
   \<and> QueryEscape (ProductName teslaK80) = ''Tesla+K80''
   \<and> spec_percentEncode (ProductName teslaK80) = ''Tesla%20K80''
   \<and> QueryEscape (ProductName teslaK80) \<noteq> spec_percentEncode (ProductName teslaK80)
   \<and> spec_percentDecode (QueryEscape (ProductName teslaK80)) = Some ''Tesla+K80''
   \<and> spec_percentDecode (QueryEscape (ProductName teslaK80)) \<noteq> Some (ProductName teslaK80)"
  by code_simp

text \<open>
  C8 as amended: the product name appears in the tags of each of the nine points
  query-escaped, that is percent-encoded byte by byte except that a space is written
  \<^verbatim>\<open>+\<close>; and query-unescaping (\<^verbatim>\<open>+\<close> to space, \<^verbatim>\<open>%XX\<close> to the byte) gives the
  name back, for every name.
\<close>

theorem C8_query_escape_round_trip:
  "QueryEscape name
     = concat (map (\<lambda>c. if c = CHR '' '' then ''+'' else spec_percentEncode [c]) name)
   \<and> QueryUnescape (QueryEscape name) = Some name
   \<and> gpuPayload host ts g
       = joinLines (map (\<lambda>(m, v). formatPoint m
                         (''hostname='' @ host @ '',gpuid='' @ ID g
                          @ '',product='' @ QueryEscape (ProductName g)
                          @ '',minor='' @ showInt (sint (MinorNumber g))) v ts)
                      (gpuMetrics g))"
  using QueryEscape_as_percentEncode [of name] QueryUnescape_QueryEscape [of name]
    gpuPayload_joinLines [of host ts g]
  by (simp only: gpuTags_def)

subsection \<open>The memory conversion\<close>

text \<open>
  C5 as claimed: \<^verbatim>\<open>"<integer> MiB"\<close> gives the integer times 1048576, and a text
  without the suffix or with a malformed integer part gives 0. The result is an
  \<^verbatim>\<open>int64\<close> and the product wraps: \<^verbatim>\<open>"8796093022208 MiB"\<close> (\<open>2\<^sup>4\<^sup>3\<close> MiB) gives
  \<open>- 2\<^sup>6\<^sup>3\<close>. Every \<^verbatim>\<open>" MiB"\<close> is removed, not only the suffix, so the malformed
  \<^verbatim>\<open>"1 MiB2 MiB"\<close> gives \<open>12 \<times> 1048576\<close>; and a range error of \<^verbatim>\<open>ParseInt\<close> comes
  with the largest \<^verbatim>\<open>int64\<close>, also when garbage follows the digits.
\<close>

theorem C5_overflow_and_leftovers:
  "isInteger ''8796093022208'' \<and> integerValue ''8796093022208'' = 8796093022208
   \<and> sint (memUsage2Int ''8796093022208 MiB'') = - 9223372036854775808
   \<and> sint (memUsage2Int ''8796093022208 MiB'') \<noteq> 8796093022208 * 1048576
   \<and> \<not> isInteger ''1 MiB2'' \<and> sint (memUsage2Int ''1 MiB2 MiB'') = 12582912
   \<and> \<not> isInteger ''99999999999999999999x''
   \<and> sint (memUsage2Int ''99999999999999999999x MiB'') = - 1048576"
  by code_simp

text \<open>
  C5 as amended. A text without the suffix \<^verbatim>\<open>" MiB"\<close> gives 0. For an optionally signed
  decimal integer \<open>n\<close> followed by \<^verbatim>\<open>" MiB"\<close>: within \<^verbatim>\<open>int64\<close> the result is
  \<open>n \<times> 1048576\<close> reduced to 64 bits, which is \<open>n \<times> 1048576\<close> itself when
  \<open>- 2\<^sup>4\<^sup>3 \<le> n < 2\<^sup>4\<^sup>3\<close>; above \<^verbatim>\<open>int64\<close> it is \<open>- 1048576\<close>, below it is 0. A text
  with the suffix whose part before it is not such an integer gives 0, provided that
  part contains no further \<^verbatim>\<open>" MiB"\<close> and its leading digits stay below \<open>2\<^sup>6\<^sup>4\<close>.
\<close>

theorem C5_memUsage2Int_amended:
  "(\<not> HasSuffix usage '' MiB'' \<longrightarrow> memUsage2Int usage = 0)
   \<and> (isInteger p \<and> - (2 ^ 63) \<le> integerValue p \<and> integerValue p < 2 ^ 63 \<longrightarrow>
        memUsage2Int (p @ '' MiB'') = word_of_int (integerValue p * 1048576))
   \<and> (isInteger p \<and> - (2 ^ 43) \<le> integerValue p \<and> integerValue p < 2 ^ 43 \<longrightarrow>
        sint (memUsage2Int (p @ '' MiB'')) = integerValue p * 1048576)
   \<and> (\<not> isInteger p \<and> \<not> Contains p '' MiB''
        \<and> decimalValue (takeWhile isDigit (unsignedPart p)) < 2 ^ 64 \<longrightarrow>
        memUsage2Int (p @ '' MiB'') = 0)
   \<and> (isInteger p \<and> 2 ^ 63 \<le> integerValue p \<longrightarrow>
        sint (memUsage2Int (p @ '' MiB'')) = - 1048576)
   \<and> (isInteger p \<and> integerValue p < - (2 ^ 63) \<longrightarrow> memUsage2Int (p @ '' MiB'') = 0)"
proof (intro conjI impI; (elim conjE)?)
  assume "\<not> HasSuffix usage '' MiB''"
  then show "memUsage2Int usage = 0" by (simp add: memUsage2Int_def)
next
  assume int: "isInteger p" and lo: "- (2 ^ 63) \<le> integerValue p" and hi: "integerValue p < 2 ^ 63"
  have "\<not> Contains p '' MiB''"
    using isInteger_no_space [OF int] by (rule no_space_not_Contains)
  then show "memUsage2Int (p @ '' MiB'') = word_of_int (integerValue p * 1048576)"
    using ParseInt_integer [OF int lo hi] by (simp add: memUsage2Int_suffix)
next
  assume int: "isInteger p" and lo: "- (2 ^ 43) \<le> integerValue p" and hi: "integerValue p < 2 ^ 43"
  have nc: "\<not> Contains p '' MiB''"
    using isInteger_no_space [OF int] by (rule no_space_not_Contains)
  have "ParseInt p = (word_of_int (integerValue p), None)"
    using int lo hi by (intro ParseInt_integer) simp_all
  then have "memUsage2Int (p @ '' MiB'') = word_of_int (integerValue p * 1048576)"
    using nc by (simp add: memUsage2Int_suffix)
  moreover have "sint (word_of_int (integerValue p * 1048576) :: 64 word) = integerValue p * 1048576"
    using lo hi by (intro sint_small) simp_all
  ultimately show "sint (memUsage2Int (p @ '' MiB'')) = integerValue p * 1048576" by simp
next
  assume "\<not> isInteger p" and nc: "\<not> Contains p '' MiB''"
    and "decimalValue (takeWhile isDigit (unsignedPart p)) < 2 ^ 64"
  then have "ParseInt p = (0, Some ErrSyntax)" by (intro ParseInt_syntax)
  then show "memUsage2Int (p @ '' MiB'') = 0" using nc by (simp add: memUsage2Int_suffix)
next
  assume int: "isInteger p" and big: "2 ^ 63 \<le> integerValue p"
  have nc: "\<not> Contains p '' MiB''"
    using isInteger_no_space [OF int] by (rule no_space_not_Contains)
  have m: "memUsage2Int (p @ '' MiB'') = fst (ParseInt p) * 1024 * 1024"
    using nc by (rule memUsage2Int_suffix)
  show "sint (memUsage2Int (p @ '' MiB'')) = - 1048576"
    unfolding m ParseInt_range_pos [OF int big] fst_conv by (rule clamp_scaled(1))
next
  assume int: "isInteger p" and big: "integerValue p < - (2 ^ 63)"
  have nc: "\<not> Contains p '' MiB''"
    using isInteger_no_space [OF int] by (rule no_space_not_Contains)
  have m: "memUsage2Int (p @ '' MiB'') = fst (ParseInt p) * 1024 * 1024"
    using nc by (rule memUsage2Int_suffix)
  show "memUsage2Int (p @ '' MiB'') = 0"
    unfolding m ParseInt_range_neg [OF int big] fst_conv by (rule clamp_scaled(2))
qed

theorem C5_memUsage2Int_amended_witness:
  "\<not> HasSuffix ''11519'' '' MiB'' \<and> memUsage2Int ''11519'' = 0
   \<and> isInteger ''11519'' \<and> integerValue ''11519'' = 11519
   \<and> sint (memUsage2Int ''11519 MiB'') = 11519 * 1048576
   \<and> isInteger ''0'' \<and> integerValue ''0'' = 0 \<and> sint (memUsage2Int ''0 MiB'') = 0
   \<and> \<not> isInteger ''abc'' \<and> \<not> Contains ''abc'' '' MiB'' \<and> memUsage2Int ''abc MiB'' = 0
   \<and> isInteger ''9223372036854775808''
   \<and> sint (memUsage2Int ''9223372036854775808 MiB'') = - 1048576
   \<and> isInteger ''-9223372036854775809'' \<and> memUsage2Int ''-9223372036854775809 MiB'' = 0"
proof -
  have s0: "\<not> HasSuffix ''11519'' '' MiB''" by code_simp
  have i1: "isInteger ''11519''" and v1: "integerValue ''11519'' = 11519" by code_simp+
  have i2: "isInteger ''0''" and v2: "integerValue ''0'' = 0" by code_simp+
  have i3: "\<not> isInteger ''abc''" and c3: "\<not> Contains ''abc'' '' MiB''"
    and d3: "decimalValue (takeWhile isDigit (unsignedPart ''abc'')) < 2 ^ 64" by code_simp+
  have i4: "isInteger ''9223372036854775808''"
    and v4: "integerValue ''9223372036854775808'' = 9223372036854775808" by code_simp+
  have i5: "isInteger ''-9223372036854775809''"
    and v5: "integerValue ''-9223372036854775809'' = - 9223372036854775809" by code_simp+
  have r0: "memUsage2Int ''11519'' = 0"
    using C5_memUsage2Int_amended [of "''11519''" "[]"] s0 by blast
  have "sint (memUsage2Int (''11519'' @ '' MiB'')) = integerValue ''11519'' * 1048576"
    using C5_memUsage2Int_amended [of "[]" "''11519''"] i1 v1 by simp
  then have r1: "sint (memUsage2Int ''11519 MiB'') = 11519 * 1048576" using v1 by simp
  have "sint (memUsage2Int (''0'' @ '' MiB'')) = integerValue ''0'' * 1048576"
    using C5_memUsage2Int_amended [of "[]" "''0''"] i2 v2 by simp
  then have r2: "sint (memUsage2Int ''0 MiB'') = 0" using v2 by simp
  have "memUsage2Int (''abc'' @ '' MiB'') = 0"
    using C5_memUsage2Int_amended [of "[]" "''abc''"] i3 c3 d3 by blast
  then have r3: "memUsage2Int ''abc MiB'' = 0" by simp
  have "sint (memUsage2Int (''9223372036854775808'' @ '' MiB'')) = - 1048576"
    using C5_memUsage2Int_amended [of "[]" "''9223372036854775808''"] i4 v4 by simp
  then have r4: "sint (memUsage2Int ''9223372036854775808 MiB'') = - 1048576" by simp
  have "memUsage2Int (''-9223372036854775809'' @ '' MiB'') = 0"
    using C5_memUsage2Int_amended [of "[]" "''-9223372036854775809''"] i5 v5 by simp
  then have r5: "memUsage2Int ''-9223372036854775809 MiB'' = 0" by simp
  show ?thesis
    using s0 r0 i1 v1 r1 i2 v2 r2 i3 c3 r3 i4 r4 i5 r5 by (intro conjI)
qed

subsection \<open>The utilization conversion\<close>

text \<open>
  C6 as claimed: \<^verbatim>\<open>"<integer> %"\<close> gives the integer unchanged, and a text without the
  suffix or with a malformed integer part gives 0. An integer beyond \<^verbatim>\<open>int64\<close> comes
  back as the nearest \<^verbatim>\<open>int64\<close>: \<^verbatim>\<open>"9223372036854775808 %"\<close> gives
  9223372036854775807. Every \<^verbatim>\<open>" %"\<close> is removed, so the malformed \<^verbatim>\<open>"1 %2 %"\<close>
  gives 12; and the range error also wins over garbage after the digits.
\<close>

theorem C6_overflow_and_leftovers:
  "isInteger ''9223372036854775808'' \<and> integerValue ''9223372036854775808'' = 9223372036854775808
   \<and> sint (utilization2Float ''9223372036854775808 %'') = 9223372036854775807
   \<and> sint (utilization2Float ''9223372036854775808 %'') \<noteq> 9223372036854775808
   \<and> \<not> isInteger ''1 %2'' \<and> sint (utilization2Float ''1 %2 %'') = 12
   \<and> \<not> isInteger ''99999999999999999999x''
   \<and> sint (utilization2Float ''99999999999999999999x %'') = 9223372036854775807"
  by code_simp

text \<open>
  C6 as amended. A text without the suffix \<^verbatim>\<open>" %"\<close> gives 0. For an optionally signed
  decimal integer \<open>n\<close> followed by \<^verbatim>\<open>" %"\<close>: within \<^verbatim>\<open>int64\<close> the result is \<open>n\<close>,
  above it \<open>2\<^sup>6\<^sup>3 - 1\<close>, below it \<open>- 2\<^sup>6\<^sup>3\<close>. A text with the suffix whose part before
  it is not such an integer gives 0, provided that part contains no further \<^verbatim>\<open>" %"\<close>
  and its leading digits stay below \<open>2\<^sup>6\<^sup>4\<close>.
\<close>

theorem C6_utilization2Float_amended:
  "(\<not> HasSuffix utilization '' %'' \<longrightarrow> utilization2Float utilization = 0)
   \<and> (isInteger p \<and> - (2 ^ 63) \<le> integerValue p \<and> integerValue p < 2 ^ 63 \<longrightarrow>
        sint (utilization2Float (p @ '' %'')) = integerValue p)
   \<and> (\<not> isInteger p \<and> \<not> Contains p '' %''
        \<and> decimalValue (takeWhile isDigit (unsignedPart p)) < 2 ^ 64 \<longrightarrow>
        utilization2Float (p @ '' %'') = 0)
   \<and> (isInteger p \<and> 2 ^ 63 \<le> integerValue p \<longrightarrow>
        sint (utilization2Float (p @ '' %'')) = 2 ^ 63 - 1)
   \<and> (isInteger p \<and> integerValue p < - (2 ^ 63) \<longrightarrow>
        sint (utilization2Float (p @ '' %'')) = - (2 ^ 63))"
proof (intro conjI impI; (elim conjE)?)
  assume "\<not> HasSuffix utilization '' %''"
  then show "utilization2Float utilization = 0" by (simp add: utilization2Float_def)
next
  assume int: "isInteger p" and lo: "- (2 ^ 63) \<le> integerValue p" and hi: "integerValue p < 2 ^ 63"
  have nc: "\<not> Contains p '' %''"
    using isInteger_no_space [OF int] by (rule no_space_not_Contains)
  have "utilization2Float (p @ '' %'') = word_of_int (integerValue p)"
    using ParseInt_integer [OF int lo hi] nc by (simp add: utilization2Float_suffix)
  then show "sint (utilization2Float (p @ '' %'')) = integerValue p"
    using sint_small [OF lo hi] by simp
next
  assume "\<not> isInteger p" and nc: "\<not> Contains p '' %''"
    and "decimalValue (takeWhile isDigit (unsignedPart p)) < 2 ^ 64"
  then have "ParseInt p = (0, Some ErrSyntax)" by (intro ParseInt_syntax)
  then show "utilization2Float (p @ '' %'') = 0" using nc by (simp add: utilization2Float_suffix)
next
  assume int: "isInteger p" and big: "2 ^ 63 \<le> integerValue p"
  have nc: "\<not> Contains p '' %''"
    using isInteger_no_space [OF int] by (rule no_space_not_Contains)
  have u: "utilization2Float (p @ '' %'') = fst (ParseInt p)"
    using nc by (rule utilization2Float_suffix)
  show "sint (utilization2Float (p @ '' %'')) = 2 ^ 63 - 1"
    unfolding u ParseInt_range_pos [OF int big] fst_conv by (rule clamp_scaled(3))
next
  assume int: "isInteger p" and big: "integerValue p < - (2 ^ 63)"
  have nc: "\<not> Contains p '' %''"
    using isInteger_no_space [OF int] by (rule no_space_not_Contains)
  have u: "utilization2Float (p @ '' %'') = fst (ParseInt p)"
    using nc by (rule utilization2Float_suffix)
  show "sint (utilization2Float (p @ '' %'')) = - (2 ^ 63)"
    unfolding u ParseInt_range_neg [OF int big] fst_conv by (rule clamp_scaled(4))
qed

theorem C6_utilization2Float_amended_witness:
  "\<not> HasSuffix ''83'' '' %'' \<and> utilization2Float ''83'' = 0
   \<and> isInteger ''83'' \<and> integerValue ''83'' = 83 \<and> sint (utilization2Float ''83 %'') = 83
   \<and> isInteger ''100'' \<and> integerValue ''100'' = 100 \<and> sint (utilization2Float ''100 %'') = 100
   \<and> \<not> isInteger ''N/A'' \<and> \<not> Contains ''N/A'' '' %'' \<and> utilization2Float ''N/A %'' = 0
   \<and> isInteger ''9223372036854775808''
   \<and> sint (utilization2Float ''9223372036854775808 %'') = 2 ^ 63 - 1
   \<and> isInteger ''-9223372036854775809''
   \<and> sint (utilization2Float ''-9223372036854775809 %'') = - (2 ^ 63)"
proof -
  have s0: "\<not> HasSuffix ''83'' '' %''" by code_simp
  have i1: "isInteger ''83''" and v1: "integerValue ''83'' = 83" by code_simp+
  have i2: "isInteger ''100''" and v2: "integerValue ''100'' = 100" by code_simp+
  have i3: "\<not> isInteger ''N/A''" and c3: "\<not> Contains ''N/A'' '' %''"
    and d3: "decimalValue (takeWhile isDigit (unsignedPart ''N/A'')) < 2 ^ 64" by code_simp+
  have i4: "isInteger ''9223372036854775808''"
    and v4: "integerValue ''9223372036854775808'' = 9223372036854775808" by code_simp+
  have i5: "isInteger ''-9223372036854775809''"
    and v5: "integerValue ''-9223372036854775809'' = - 9223372036854775809" by code_simp+
  have r0: "utilization2Float ''83'' = 0"
    using C6_utilization2Float_amended [of "''83''" "[]"] s0 by blast
  have "sint (utilization2Float (''83'' @ '' %'')) = integerValue ''83''"
    using C6_utilization2Float_amended [of "[]" "''83''"] i1 v1 by simp
  then have r1: "sint (utilization2Float ''83 %'') = 83" using v1 by simp
  have "sint (utilization2Float (''100'' @ '' %'')) = integerValue ''100''"
    using C6_utilization2Float_amended [of "[]" "''100''"] i2 v2 by simp
  then have r2: "sint (utilization2Float ''100 %'') = 100" using v2 by simp
  have "utilization2Float (''N/A'' @ '' %'') = 0"
    using C6_utilization2Float_amended [of "[]" "''N/A''"] i3 c3 d3 by blast
  then have r3: "utilization2Float ''N/A %'' = 0" by simp
  have "sint (utilization2Float (''9223372036854775808'' @ '' %'')) = 2 ^ 63 - 1"
    using C6_utilization2Float_amended [of "[]" "''9223372036854775808''"] i4 v4 by simp
  then have r4: "sint (utilization2Float ''9223372036854775808 %'') = 2 ^ 63 - 1" by simp
  have "sint (utilization2Float (''-9223372036854775809'' @ '' %'')) = - (2 ^ 63)"
    using C6_utilization2Float_amended [of "[]" "''-9223372036854775809''"] i5 v5 by simp
  then have r5: "sint (utilization2Float ''-9223372036854775809 %'') = - (2 ^ 63)" by simp
  show ?thesis
    using s0 r0 i1 v1 r1 i2 v2 r2 i3 c3 r3 i4 r4 i5 r5 by (intro conjI)
qed

subsection \<open>No range validation\<close>

text \<open>
  C10. Neither conversion checks a range: \<^verbatim>\<open>"-5 MiB"\<close> becomes the negative byte count
  \<open>-5 \<times> 1048576\<close>, \<^verbatim>\<open>"150 %"\<close> becomes 150, and the points of a GPU reporting these
  carry the two values as they are.
\<close>

theorem C10_no_range_validation:
  "sint (memUsage2Int ''-5 MiB'') = - 5 * 1048576
   \<and> sint (utilization2Float ''150 %'') = 150
   \<and> take 2 (gpuMetrics oddGPU) = [(''fbmemory/total'', - 5242880), (''fbmemory/used'', 0)]
   \<and> gpuMetrics oddGPU ! 6 = (''gpu'', 150)
   \<and> gpuPayload ''node1'' 1500000000000000000 oddGPU =
       joinLines
        [''fbmemory/total,hostname=node1,gpuid=1,product=Tesla+K80,minor=1 value=-5242880 1500000000000000000'',
         ''fbmemory/used,hostname=node1,gpuid=1,product=Tesla+K80,minor=1 value=0 1500000000000000000'',
         ''fbmemory/free,hostname=node1,gpuid=1,product=Tesla+K80,minor=1 value=0 1500000000000000000'',
         ''bar1memory/total,hostname=node1,gpuid=1,product=Tesla+K80,minor=1 value=12078546944 1500000000000000000'',
         ''bar1memory/used,hostname=node1,gpuid=1,product=Tesla+K80,minor=1 value=0 1500000000000000000'',
         ''bar1memory/free,hostname=node1,gpuid=1,product=Tesla+K80,minor=1 value=12078546944 1500000000000000000'',
         ''gpu,hostname=node1,gpuid=1,product=Tesla+K80,minor=1 value=150 1500000000000000000'',
         ''gpu/encoder,hostname=node1,gpuid=1,product=Tesla+K80,minor=1 value=0 1500000000000000000'',
         ''gpu/decoder,hostname=node1,gpuid=1,product=Tesla+K80,minor=1 value=0 1500000000000000000'']"
  by code_simp

end
